theory Spec2Isabelle
  imports Complex_Main "HOL-Library.Stream"
begin

section \<open>The tutorial notebook \<open>docs/tutorials/basics.ipynb\<close>\<close>

text \<open>
  The notebook builds distributions and transformations of PyTorch and Zuko (code cells
  2 to 4), a lazily parametrised Gaussian model, \<open>GaussianModel\<close> (cells 5 to 9), a
  short training loop (cell 10), and a flow assembled from lazy modules, among them
  \<open>Unconditional\<close> (cell 12).

  Conventions of the embedding.
  \<^item> The program computes in 32-bit floating point. An entry of a tensor in the store is
    a value of the type \<open>f32\<close>: a finite real number, \<open>+inf\<close>, \<open>-inf\<close> or \<open>nan\<close>. The
    special values follow IEEE 754, and the exponential has the range of \<open>float32\<close> (it
    underflows to \<open>0\<close> and overflows to \<open>+inf\<close>). Arithmetic on finite values is exact:
    the rounding of \<open>float32\<close>, the overflow of a sum or a product of finite values, and
    the sign of zero are outside the model.
  \<^item> Importing \<open>zuko\<close> switches the argument validation of \<open>torch.distributions\<close> off
    (\<open>Distribution.set_default_validate_args(False)\<close>): no constructor and no method of a
    distribution checks the values it is given.
  \<^item> The change of variables of a flow (cell 4) is a statement of real analysis; for it,
    and for the outputs that the notebook records, the 0-dimensional tensors of cells 2
    to 4 are also modelled by their value, a \<open>real\<close>. That model is exact arithmetic on
    finite values.
  \<^item> The tensors of the store have a shape, entries and autograd metadata. The
    parameters of a module are overwritten in place, and which object refers to which
    tensor is part of the state.
  \<^item> Random draws come from PyTorch's global generator. The generator is modelled by
    the stream of standard normal variates it is going to produce, so that a draw is a
    function of the generator state and returns the next state.
  \<^item> \<open>torch.distributions.Normal\<close>, \<open>torch.distributions.AffineTransform\<close> and the tensor
    operations are PyTorch's; they are written as PyTorch computes them, and checked
    against the outputs that the notebook records.
  \<^item> An exception is a value \<open>Inl e\<close>; a computation that returns gives \<open>Inr\<close> of its
    result.
\<close>

subsection \<open>Errors\<close>

datatype error =
    RuntimeError    \<comment> \<open>shape mismatch in a tensor operation, \<open>torch.normal\<close> on a negative scale\<close>
  | ValueError      \<comment> \<open>tuple unpacking\<close>
  | IndexError      \<comment> \<open>a dimension that the tensor does not have\<close>
  | TypeError       \<comment> \<open>an object of the wrong class where a tensor or distribution is expected\<close>

subsection \<open>The random generator\<close>

type_synonym generator = "real stream"

definition randn :: "generator \<Rightarrow> real \<times> generator" where
  "randn g = (shd g, stl g)"

subsection \<open>Transformations (cell 3)\<close>

text \<open>
  A transform object has a forward call \<open>y = f(x)\<close>, an inverse call \<open>x = f\<^sup>-\<^sup>1(y)\<close>
  (\<open>transform.inv(y)\<close>) and the method \<open>log_abs_det_jacobian(x, y)\<close>.
\<close>

record transform =
  forward :: "real \<Rightarrow> real"
  inv_call :: "real \<Rightarrow> real"
  log_abs_det_jacobian :: "real \<Rightarrow> real \<Rightarrow> real"

text \<open>
  \<open>AffineTransform(loc, scale)\<close> on real values: \<open>y = loc + scale * x\<close> (the comment of
  cell 12), \<open>x = (y - loc) / scale\<close>, and \<open>log_abs_det_jacobian\<close> is \<open>log |scale|\<close>. These
  are the values of the program for a scale other than 0. With \<open>scale = 0\<close> the program
  returns \<open>nan\<close> or an infinity from the inverse call and \<open>-inf\<close> from
  \<open>log_abs_det_jacobian\<close>, which no real number is; that case is covered by the methods
  on tensors, \<open>Affine_inv\<close> and \<open>Affine_log_abs_det_jacobian\<close> below.
\<close>

definition AffineTransform :: "real \<Rightarrow> real \<Rightarrow> transform" where
  "AffineTransform l s =
     \<lparr>forward = (\<lambda>x. l + s * x),
      inv_call = (\<lambda>y. (y - l) / s),
      log_abs_det_jacobian = (\<lambda>x y. ln \<bar>s\<bar>)\<rparr>"

subsection \<open>Distributions (cells 2 and 4)\<close>

text \<open>
  Modelled from the spec: the constructor \<open>NormalizingFlow(transform, base)\<close> of
  \<open>zuko.distributions.NormalizingFlow\<close>, whose source is not part of the material (the
  notebook calls it in cell 4). A flow is a distribution formed by pushing a base
  distribution through a transformation, and is again a distribution, so that flows
  nest. \<open>Normal(loc, scale)\<close> is PyTorch's, on real values; its methods below are the
  values of the program for a scale greater than 0.
\<close>

datatype distribution =
    Normal (loc: real) (scale: real)
  | NormalizingFlow (transform: transform) (base: distribution)

text \<open>
  Modelled from the spec: the clause for \<open>NormalizingFlow\<close> (the method \<open>log_prob\<close> of
  \<open>zuko.distributions.NormalizingFlow\<close>, not part of the material): the log-density is
  the base log-density at \<open>f(x)\<close> plus the log-absolute-determinant of the Jacobian that
  the transformation reports. The clause for \<open>Normal\<close> is \<open>Normal.log_prob\<close> of PyTorch:
  \<^verbatim>\<open>
  var = self.scale ** 2
  log_scale = self.scale.log()
  return -((value - self.loc) ** 2) / (2 * var) - log_scale - math.log(math.sqrt(2 * math.pi))
  \<close>
\<close>

fun log_prob :: "distribution \<Rightarrow> real \<Rightarrow> real" where
  "log_prob (Normal mu sigma) x =
     - ((x - mu)\<^sup>2) / (2 * sigma\<^sup>2) - ln sigma - ln (sqrt (2 * pi))"
| "log_prob (NormalizingFlow t p) x =
     (let z = forward t x; ladj = log_abs_det_jacobian t x z in log_prob p z + ladj)"

text \<open>
  Modelled from the spec: the clause for \<open>NormalizingFlow\<close> (the method \<open>sample\<close> of
  \<open>zuko.distributions.NormalizingFlow\<close>, not part of the material): a realization \<open>z\<close>
  of the base is drawn and sent through the inverse transformation. The clause for
  \<open>Normal\<close> is \<open>torch.normal(loc, scale)\<close>.
\<close>

fun sample :: "distribution \<Rightarrow> generator \<Rightarrow> real \<times> generator" where
  "sample (Normal mu sigma) g = (let (z, g') = randn g in (mu + sigma * z, g'))"
| "sample (NormalizingFlow t p) g = (let (z, g') = sample p g in (inv_call t z, g'))"

text \<open>A flow through several transformations, the first of the list applied to \<open>x\<close> first.\<close>

fun flow_through :: "transform list \<Rightarrow> distribution \<Rightarrow> distribution" where
  "flow_through [] p = p"
| "flow_through (t # ts) p = NormalizingFlow t (flow_through ts p)"

fun inverse_chain :: "transform list \<Rightarrow> real \<Rightarrow> real" where
  "inverse_chain [] z = z"
| "inverse_chain (t # ts) z = inv_call t (inverse_chain ts z)"

subsection \<open>Floating-point values\<close>

text \<open>
  The values of \<open>float32\<close>: finite numbers and the three special values. Sums, products
  and differences of finite values are the real ones; an operation on a special value
  gives what IEEE 754 gives (\<open>inf - inf\<close>, \<open>0 * inf\<close> and every operation on \<open>nan\<close> are
  \<open>nan\<close>). Zero has no sign here, so that a finite value divided by zero is \<open>+inf\<close> or
  \<open>-inf\<close> by the sign of the numerator alone.
\<close>

datatype f32 = Fin real | PInf | NInf | NaN

instantiation f32 :: comm_monoid_add
begin

definition zero_f32 :: f32 where
  "zero_f32 = Fin 0"

fun plus_f32 :: "f32 \<Rightarrow> f32 \<Rightarrow> f32" where
  "plus_f32 (Fin a) (Fin b) = Fin (a + b)"
| "plus_f32 NaN y = NaN"
| "plus_f32 x NaN = NaN"
| "plus_f32 PInf NInf = NaN"
| "plus_f32 NInf PInf = NaN"
| "plus_f32 PInf y = PInf"
| "plus_f32 x PInf = PInf"
| "plus_f32 NInf y = NInf"
| "plus_f32 x NInf = NInf"

instance
proof
  fix u v w :: f32
  show "0 + u = u"
    by (cases u) (simp_all add: zero_f32_def)
  show "u + v = v + u"
    by (cases u; cases v) simp_all
  show "u + v + w = u + (v + w)"
    by (cases u; cases v; cases w) simp_all
qed

end

instantiation f32 :: "{times, uminus, minus}"
begin

fun times_f32 :: "f32 \<Rightarrow> f32 \<Rightarrow> f32" where
  "times_f32 (Fin a) (Fin b) = Fin (a * b)"
| "times_f32 NaN y = NaN"
| "times_f32 x NaN = NaN"
| "times_f32 (Fin a) PInf = (if 0 < a then PInf else if a < 0 then NInf else NaN)"
| "times_f32 (Fin a) NInf = (if 0 < a then NInf else if a < 0 then PInf else NaN)"
| "times_f32 PInf (Fin b) = (if 0 < b then PInf else if b < 0 then NInf else NaN)"
| "times_f32 NInf (Fin b) = (if 0 < b then NInf else if b < 0 then PInf else NaN)"
| "times_f32 PInf PInf = PInf"
| "times_f32 NInf NInf = PInf"
| "times_f32 PInf NInf = NInf"
| "times_f32 NInf PInf = NInf"

fun uminus_f32 :: "f32 \<Rightarrow> f32" where
  "uminus_f32 (Fin a) = Fin (- a)"
| "uminus_f32 PInf = NInf"
| "uminus_f32 NInf = PInf"
| "uminus_f32 NaN = NaN"

definition minus_f32 :: "f32 \<Rightarrow> f32 \<Rightarrow> f32" where
  "minus_f32 a b = a + (- b)"

instance ..

end

text \<open>
  Division, logarithm, absolute value, \<open>relu\<close> and exponential. \<open>log\<close> of \<open>0\<close> is
  \<open>-inf\<close> and \<open>log\<close> of a negative number is \<open>nan\<close>.
\<close>

fun fdiv :: "f32 \<Rightarrow> f32 \<Rightarrow> f32" where
  "fdiv (Fin a) (Fin b) =
     (if b \<noteq> 0 then Fin (a / b)
      else if 0 < a then PInf else if a < 0 then NInf else NaN)"
| "fdiv NaN y = NaN"
| "fdiv x NaN = NaN"
| "fdiv (Fin a) y = Fin 0"
| "fdiv PInf (Fin b) = (if 0 \<le> b then PInf else NInf)"
| "fdiv NInf (Fin b) = (if 0 \<le> b then NInf else PInf)"
| "fdiv x y = NaN"

fun flog :: "f32 \<Rightarrow> f32" where
  "flog (Fin a) = (if 0 < a then Fin (ln a) else if a = 0 then NInf else NaN)"
| "flog PInf = PInf"
| "flog x = NaN"

fun fabs :: "f32 \<Rightarrow> f32" where
  "fabs (Fin a) = Fin \<bar>a\<bar>"
| "fabs NaN = NaN"
| "fabs x = PInf"

fun frelu :: "f32 \<Rightarrow> f32" where
  "frelu (Fin a) = Fin (max 0 a)"
| "frelu PInf = PInf"
| "frelu NInf = Fin 0"
| "frelu NaN = NaN"

text \<open>
  \<open>exp\<close> in \<open>float32\<close>, rounded to nearest: a result of at most \<open>2^-150\<close>, half the least
  positive value of the format, is \<open>0\<close>, and a result of at least
  \<open>(2 - 2^-24) * 2^127\<close> is \<open>+inf\<close>. So \<open>exp(-256) = 0\<close> and \<open>exp(160) = inf\<close>.
\<close>

fun fexp :: "f32 \<Rightarrow> f32" where
  "fexp (Fin a) =
     (if exp a * 2 ^ 150 \<le> 1 then Fin 0
      else if (2 - 1 / 2 ^ 24) * 2 ^ 127 \<le> exp a then PInf
      else Fin (exp a))"
| "fexp PInf = PInf"
| "fexp NInf = Fin 0"
| "fexp NaN = NaN"

text \<open>
  \<open>0 < v\<close> and \<open>0 \<le> v\<close> as \<open>float32\<close> compares: false on \<open>nan\<close>. \<open>is_Fin\<close> recognises the
  finite values.
\<close>

fun positive :: "f32 \<Rightarrow> bool" where
  "positive (Fin a) = (0 < a)"
| "positive PInf = True"
| "positive x = False"



subsection \<open>Tensors and automatic differentiation\<close>

text \<open>
  A tensor has a shape and its entries in row-major order. Autograd metadata:
  \<open>requires_grad\<close>, and \<open>grad_fn\<close>, the node of the computation graph that produced the
  tensor (\<open>None\<close> for a leaf and for a tensor that is not part of a graph). The nodes are
  named after the operation; \<open>SubBackward\<close> and \<open>AddBackward\<close> are the \<open>SubBackward0\<close> and
  \<open>AddBackward0\<close> that cells 8 and 9 print.
\<close>

datatype grad_node =
  LinearBackward | ReluBackward | UnbindBackward | ExpBackward | ExpandBackward
  | SubBackward | AddBackward | DivBackward | NormalBackward

record tensor =
  shape :: "nat list"
  data :: "f32 list"
  requires_grad :: bool
  grad_fn :: "grad_node option"

definition numel :: "nat list \<Rightarrow> nat" where
  "numel sh = prod_list sh"

text \<open>
  Every tensor of PyTorch has as many entries as its shape says.
\<close>

definition tensor_ok :: "tensor \<Rightarrow> bool" where
  "tensor_ok t = (length (data t) = numel (shape t))"

text \<open>
  The result of an operation: it is part of the graph when gradient mode is enabled
  (\<open>ge\<close>; \<open>torch.no_grad()\<close> disables it) and one of the inputs requires a gradient.
\<close>

definition result :: "bool \<Rightarrow> grad_node \<Rightarrow> tensor list \<Rightarrow> nat list \<Rightarrow> f32 list \<Rightarrow> tensor" where
  "result ge node inputs sh d =
     \<lparr>shape = sh, data = d,
      requires_grad = (ge \<and> list_ex requires_grad inputs),
      grad_fn = (if ge \<and> list_ex requires_grad inputs then Some node else None)\<rparr>"

definition rows :: "nat \<Rightarrow> nat \<Rightarrow> 'a list \<Rightarrow> 'a list list" where
  "rows k n xs = map (\<lambda>r. take n (drop (r * n) xs)) [0..<k]"

definition dot :: "f32 list \<Rightarrow> f32 list \<Rightarrow> f32" where
  "dot u v = sum_list (map2 (*) u v)"

text \<open>
  \<open>torch.nn.functional.linear(x, W, b)\<close>, the forward pass of \<open>torch.nn.Linear\<close>:
  \<open>W\<close> has shape \<open>[out, in]\<close>, \<open>b\<close> has shape \<open>[out]\<close>, the last dimension of \<open>x\<close> has to be
  \<open>in\<close>, and every row of \<open>x\<close> is sent to \<open>W x + b\<close>.
\<close>

definition F_linear :: "bool \<Rightarrow> tensor \<Rightarrow> tensor \<Rightarrow> tensor \<Rightarrow> error + tensor" where
  "F_linear ge x W b =
     (case shape W of
        [m, n] \<Rightarrow>
          if shape x \<noteq> [] \<and> last (shape x) = n \<and> shape b = [m] then
            Inr (result ge LinearBackward [x, W, b] (butlast (shape x) @ [m])
                  (concat (map (\<lambda>xr. map2 (\<lambda>w bi. dot w xr + bi) (rows m n (data W)) (data b))
                               (rows (numel (butlast (shape x))) n (data x)))))
          else Inl RuntimeError
      | _ \<Rightarrow> Inl RuntimeError)"

definition relu :: "bool \<Rightarrow> tensor \<Rightarrow> tensor" where
  "relu ge x = result ge ReluBackward [x] (shape x) (map frelu (data x))"

definition exp_t :: "bool \<Rightarrow> tensor \<Rightarrow> tensor" where
  "exp_t ge x = result ge ExpBackward [x] (shape x) (map fexp (data x))"

text \<open>
  \<open>x.unbind(dim=-1)\<close>: the slices of \<open>x\<close> along its last dimension.
\<close>

definition unbind :: "bool \<Rightarrow> tensor \<Rightarrow> error + tensor list" where
  "unbind ge x =
     (if shape x = [] then Inl IndexError
      else let k = last (shape x); sh = butlast (shape x) in
        Inr (map (\<lambda>i. result ge UnbindBackward [x] sh
                         (map (\<lambda>r. data x ! (r * k + i)) [0..<numel sh])) [0..<k]))"

text \<open>
  Broadcasting: shapes are aligned at their last dimension, and a dimension of size 1
  is repeated. The functions work on reversed shapes and reversed multi-indices.
\<close>

fun broadcast_rev :: "nat list \<Rightarrow> nat list \<Rightarrow> nat list option" where
  "broadcast_rev [] ys = Some ys"
| "broadcast_rev xs [] = Some xs"
| "broadcast_rev (x # xs) (y # ys) =
     (if x = y \<or> y = 1 then map_option ((#) x) (broadcast_rev xs ys)
      else if x = 1 then map_option ((#) y) (broadcast_rev xs ys)
      else None)"

definition broadcast_shapes :: "nat list \<Rightarrow> nat list \<Rightarrow> nat list option" where
  "broadcast_shapes a b = map_option rev (broadcast_rev (rev a) (rev b))"

fun unravel_rev :: "nat list \<Rightarrow> nat \<Rightarrow> nat list" where
  "unravel_rev [] i = []"
| "unravel_rev (s # ss) i = (i mod s) # unravel_rev ss (i div s)"

fun ravel_rev :: "nat list \<Rightarrow> nat list \<Rightarrow> nat" where
  "ravel_rev (s # ss) (j # js) = j mod s + s * ravel_rev ss js"
| "ravel_rev _ _ = 0"

definition expand_data :: "tensor \<Rightarrow> nat list \<Rightarrow> f32 list" where
  "expand_data t sh =
     map (\<lambda>i. data t ! ravel_rev (rev (shape t)) (unravel_rev (rev sh) i)) [0..<numel sh]"

definition expand :: "bool \<Rightarrow> tensor \<Rightarrow> nat list \<Rightarrow> tensor" where
  "expand ge t sh = result ge ExpandBackward [t] sh (expand_data t sh)"

text \<open>
  \<open>torch.broadcast_tensors\<close> on one tensor: a tensor that has the shape already is
  returned as it is, another one is expanded.
\<close>

definition view :: "bool \<Rightarrow> tensor \<Rightarrow> nat list \<Rightarrow> tensor" where
  "view ge t sh = (if shape t = sh then t else expand ge t sh)"

subsection \<open>The object store\<close>

text \<open>
  Tensors, distribution objects and transform objects live in a store; an object is
  referred to by its address, and a new object gets the next free address. An optimizer
  step writes into the parameter tensors in place, so whether a distribution object
  shares a tensor with the module that built it is visible in this model.

  A \<open>Normal\<close> object refers to the two tensors that its constructor was given; it
  records its batch shape and whether gradient mode was enabled when it was built. An
  \<open>AffineTransform\<close> object refers to its \<open>loc\<close> and \<open>scale\<close>. The slices that \<open>unbind\<close>
  returns share their storage with the output of the last layer, to which nothing
  writes; they are modelled with entries of their own.
\<close>

type_synonym addr = nat

datatype obj =
    is_Tensor: Tensor tensor
  | Normal_object addr addr "nat list" bool
  | Affine_object addr addr

type_synonym heap = "obj list"

definition alloc :: "obj \<Rightarrow> heap \<Rightarrow> addr \<times> heap" where
  "alloc v h = (length h, h @ [v])"

fun alloc_all :: "obj list \<Rightarrow> heap \<Rightarrow> addr list \<times> heap" where
  "alloc_all [] h = ([], h)"
| "alloc_all (v # vs) h =
     (let (a, h1) = alloc v h; (as, h2) = alloc_all vs h1 in (a # as, h2))"

text \<open>
  Reading a tensor through a reference. A reference of Python always leads to an object;
  an address that holds none is reported like an object of the wrong class.
\<close>

definition get_tensor :: "heap \<Rightarrow> addr \<Rightarrow> error + tensor" where
  "get_tensor h a =
     (if a < length h then (case h ! a of Tensor t \<Rightarrow> Inr t | _ \<Rightarrow> Inl TypeError)
      else Inl TypeError)"

text \<open>
  An exception ends the computation: the rest runs only on a result.
\<close>

definition bind_result :: "error + 'a \<Rightarrow> ('a \<Rightarrow> error + 'b) \<Rightarrow> error + 'b" where
  "bind_result r f = (case r of Inl e \<Rightarrow> Inl e | Inr v \<Rightarrow> f v)"

subsection \<open>Modules (cell 5)\<close>

text \<open>
  \<open>torch.nn.Linear(in_features, out_features)\<close> holds two parameter tensors. Their initial
  entries are drawn at random by PyTorch; here they are given by the functions \<open>winit\<close>
  and \<open>binit\<close> from the index of an entry to its (finite) value.
\<close>

record Linear =
  in_features :: nat
  out_features :: nat
  weight :: addr
  bias :: addr

definition Linear_init ::
  "nat \<Rightarrow> nat \<Rightarrow> (nat \<Rightarrow> real) \<Rightarrow> (nat \<Rightarrow> real) \<Rightarrow> heap \<Rightarrow> Linear \<times> heap" where
  "Linear_init n m winit binit h =
     (let (w, h1) = alloc (Tensor \<lparr>shape = [m, n], data = map (\<lambda>i. Fin (winit i)) [0..<m * n],
                                   requires_grad = True, grad_fn = None\<rparr>) h;
          (b, h2) = alloc (Tensor \<lparr>shape = [m], data = map (\<lambda>i. Fin (binit i)) [0..<m],
                                   requires_grad = True, grad_fn = None\<rparr>) h1
      in (\<lparr>in_features = n, out_features = m, weight = w, bias = b\<rparr>, h2))"

definition Linear_call :: "bool \<Rightarrow> Linear \<Rightarrow> addr \<Rightarrow> heap \<Rightarrow> error + addr \<times> heap" where
  "Linear_call ge l x h =
     bind_result (get_tensor h x) (\<lambda>tx.
     bind_result (get_tensor h (weight l)) (\<lambda>tw.
     bind_result (get_tensor h (bias l)) (\<lambda>tb.
     bind_result (F_linear ge tx tw tb) (\<lambda>y.
     Inr (alloc (Tensor y) h)))))"

definition ReLU_call :: "bool \<Rightarrow> addr \<Rightarrow> heap \<Rightarrow> error + addr \<times> heap" where
  "ReLU_call ge x h =
     bind_result (get_tensor h x) (\<lambda>tx. Inr (alloc (Tensor (relu ge tx)) h))"

definition exp_call :: "bool \<Rightarrow> addr \<Rightarrow> heap \<Rightarrow> error + addr \<times> heap" where
  "exp_call ge x h =
     bind_result (get_tensor h x) (\<lambda>tx. Inr (alloc (Tensor (exp_t ge tx)) h))"

definition unbind_call :: "bool \<Rightarrow> addr \<Rightarrow> heap \<Rightarrow> error + addr list \<times> heap" where
  "unbind_call ge x h =
     bind_result (get_tensor h x) (\<lambda>tx.
     bind_result (unbind ge tx) (\<lambda>parts.
     Inr (alloc_all (map Tensor parts) h)))"

text \<open>
  The constructor of \<open>torch.distributions.Normal\<close> on tensors:
  \<^verbatim>\<open>
  self.loc, self.scale = broadcast_all(loc, scale)
  super().__init__(batch_shape, validate_args=validate_args)
  \<close>
  It raises \<open>RuntimeError\<close> when the two shapes do not broadcast. It validates nothing
  else (validation is switched off): a scale with entries that are \<open>0\<close>, negative or
  \<open>nan\<close> is accepted. It makes no copy: the new object refers to the tensors it was
  given.
\<close>

definition Normal_new :: "bool \<Rightarrow> addr \<Rightarrow> addr \<Rightarrow> heap \<Rightarrow> error + addr \<times> heap" where
  "Normal_new ge l s h =
     bind_result (get_tensor h l) (\<lambda>tloc.
     bind_result (get_tensor h s) (\<lambda>tscale.
     case broadcast_shapes (shape tloc) (shape tscale) of
       None \<Rightarrow> Inl RuntimeError
     | Some sh \<Rightarrow> Inr (alloc (Normal_object l s sh ge) h)))"

text \<open>
  The tensors \<open>d.loc\<close> and \<open>d.scale\<close> of the distribution object at address \<open>d\<close>, read
  from the store as it is now.
\<close>

definition read_Normal :: "heap \<Rightarrow> addr \<Rightarrow> error + tensor \<times> tensor" where
  "read_Normal h d =
     (if d < length h then
        (case h ! d of
           Normal_object l s sh ge \<Rightarrow>
             bind_result (get_tensor h l) (\<lambda>tloc.
             bind_result (get_tensor h s) (\<lambda>tscale.
             Inr (view ge tloc sh, view ge tscale sh)))
         | _ \<Rightarrow> Inl TypeError)
      else Inl TypeError)"

text \<open>
  \<^verbatim>\<open>
  class GaussianModel(zuko.flows.LazyDistribution):
      def __init__(self, context: int):
          super().__init__()
          self.hyper = torch.nn.Sequential(
              torch.nn.Linear(context, 64),
              torch.nn.ReLU(),
              torch.nn.Linear(64, 2), # mu, log sigma
          )

      def forward(self, c: torch.Tensor):
          mu, log_sigma = self.hyper(c).unbind(dim=-1)
          return torch.distributions.Normal(mu, log_sigma.exp())
  \<close>
\<close>

record GaussianModel =
  hyper_0 :: Linear
  hyper_2 :: Linear

definition GaussianModel_init ::
  "nat \<Rightarrow> (nat \<Rightarrow> real) \<Rightarrow> (nat \<Rightarrow> real) \<Rightarrow> (nat \<Rightarrow> real) \<Rightarrow> (nat \<Rightarrow> real) \<Rightarrow> heap
     \<Rightarrow> GaussianModel \<times> heap" where
  "GaussianModel_init context w0 b0 w2 b2 h =
     (let (l0, h1) = Linear_init context 64 w0 b0 h;
          (l2, h2) = Linear_init 64 2 w2 b2 h1
      in (\<lparr>hyper_0 = l0, hyper_2 = l2\<rparr>, h2))"

definition hyper_call :: "bool \<Rightarrow> GaussianModel \<Rightarrow> addr \<Rightarrow> heap \<Rightarrow> error + addr \<times> heap" where
  "hyper_call ge m c h =
     bind_result (Linear_call ge (hyper_0 m) c h) (\<lambda>(a1, h1).
     bind_result (ReLU_call ge a1 h1) (\<lambda>(a2, h2).
     Linear_call ge (hyper_2 m) a2 h2))"

text \<open>
  Unpacking into \<open>mu, log_sigma\<close> raises \<open>ValueError\<close> unless there are two slices.
\<close>

definition GaussianModel_forward ::
  "bool \<Rightarrow> GaussianModel \<Rightarrow> addr \<Rightarrow> heap \<Rightarrow> error + addr \<times> heap" where
  "GaussianModel_forward ge m c h =
     bind_result (hyper_call ge m c h) (\<lambda>(out, h1).
     bind_result (unbind_call ge out h1) (\<lambda>(parts, h2).
     case parts of
       [mu, log_sigma] \<Rightarrow>
         bind_result (exp_call ge log_sigma h2) (\<lambda>(sigma, h3). Normal_new ge mu sigma h3)
     | _ \<Rightarrow> Inl ValueError))"

subsection \<open>The optimizer (cell 10)\<close>

text \<open>
  \<open>model.parameters()\<close>, and \<open>optimizer.step()\<close>, which overwrites the entries of every
  parameter tensor in place. What Adam writes depends on the gradients and on its own
  state; the model takes the new entries from an arbitrary \<open>rule\<close>.
\<close>

definition parameters :: "GaussianModel \<Rightarrow> addr list" where
  "parameters m =
     [weight (hyper_0 m), bias (hyper_0 m), weight (hyper_2 m), bias (hyper_2 m)]"

definition update_data :: "addr \<Rightarrow> (f32 list \<Rightarrow> f32 list) \<Rightarrow> heap \<Rightarrow> heap" where
  "update_data a f h =
     (if a < length h then
        (case h ! a of Tensor t \<Rightarrow> h[a := Tensor (t\<lparr>data := f (data t)\<rparr>)] | _ \<Rightarrow> h)
      else h)"

definition optimizer_step :: "(addr \<Rightarrow> f32 list \<Rightarrow> f32 list) \<Rightarrow> addr list \<Rightarrow> heap \<Rightarrow> heap" where
  "optimizer_step rule ps h = fold (\<lambda>a. update_data a (rule a)) ps h"

subsection \<open>The methods of a \<open>Normal\<close> object (cells 2 and 7 to 9)\<close>

text \<open>
  \<open>Normal.log_prob\<close> of PyTorch, entry by entry in floating point:
  \<^verbatim>\<open>
  var = self.scale ** 2
  log_scale = self.scale.log()
  return -((value - self.loc) ** 2) / (2 * var) - log_scale - math.log(math.sqrt(2 * math.pi))
  \<close>
\<close>

definition Normal_log_prob_entry :: "f32 \<Rightarrow> f32 \<Rightarrow> f32 \<Rightarrow> f32" where
  "Normal_log_prob_entry mu sigma x =
     fdiv (- ((x - mu) * (x - mu))) (Fin 2 * (sigma * sigma)) - flog sigma
       - Fin (ln (sqrt (2 * pi)))"

text \<open>
  \<open>log_prob(value)\<close> broadcasts the value against the parameters (a value that does not
  broadcast is a \<open>RuntimeError\<close>); its last operation is a subtraction. \<open>sample()\<close> is
  \<open>torch.normal(loc, scale)\<close> under \<open>torch.no_grad()\<close>; \<open>torch.normal\<close> raises
  \<open>RuntimeError\<close> unless every entry of the scale is \<open>\<ge> 0\<close> (an entry that is \<open>nan\<close> is
  not). \<open>rsample()\<close> is \<open>loc + eps * scale\<close> and checks nothing. Arguments and results of
  the methods are given by value.
\<close>

definition Normal_log_prob :: "bool \<Rightarrow> addr \<Rightarrow> tensor \<Rightarrow> heap \<Rightarrow> error + tensor" where
  "Normal_log_prob ge d x h =
     bind_result (read_Normal h d) (\<lambda>(tloc, tscale).
     case broadcast_shapes (shape tloc) (shape x) of
       None \<Rightarrow> Inl RuntimeError
     | Some sh \<Rightarrow>
         Inr (result ge SubBackward [x, tloc, tscale] sh
               (map (\<lambda>i. Normal_log_prob_entry (expand_data tloc sh ! i)
                            (expand_data tscale sh ! i) (expand_data x sh ! i))
                    [0..<numel sh])))"



subsection \<open>The methods of an \<open>AffineTransform\<close> object (cell 3)\<close>

text \<open>
  \<open>torch.distributions.AffineTransform(loc, scale)\<close> on tensors. The constructor keeps
  the two tensors and validates nothing. The methods:
  \<^verbatim>\<open>
  def _call(self, x):    return self.loc + self.scale * x
  def _inverse(self, y): return (y - self.loc) / self.scale
  def log_abs_det_jacobian(self, x, y):
      ...
      result = torch.abs(scale).log()
      ...
      return result.expand(shape)        # shape = x.shape
  \<close>
  \<open>transform.inv(y)\<close> is \<open>_inverse(y)\<close>.
\<close>

definition AffineTransform_new :: "addr \<Rightarrow> addr \<Rightarrow> heap \<Rightarrow> error + addr \<times> heap" where
  "AffineTransform_new l s h =
     bind_result (get_tensor h l) (\<lambda>tloc.
     bind_result (get_tensor h s) (\<lambda>tscale.
     Inr (alloc (Affine_object l s) h)))"







subsection \<open>The lazy module \<open>Unconditional\<close> (cell 12)\<close>

text \<open>
  Modelled from the spec: \<open>zuko.flows.Unconditional\<close>, whose source is not part of the
  material. The notebook uses it in cell 12:
  \<^verbatim>\<open>
  Unconditional(  # [0, 255] -> ]0, 1[
      AffineTransform,  # y = loc + scale * x
      torch.tensor(1 / 512),  # loc
      torch.tensor(1 / 256),  # scale
      buffer=True,  # not trainable
  ),
  ...
  Unconditional(RotationTransform, torch.randn(5, 5)),  # trainable rotation
  ...
  base=Unconditional(  # ignore context
  \<close>
  It is a lazy module in the sense of the specification (it stores parameters and a
  recipe, and constructs the actual object on each forward call): it keeps the
  constructor \<open>meta\<close> and the tensors it is given, as buffers (\<open>buffer=True\<close>) or as
  trainable parameters; its forward call ignores the context and returns
  \<open>meta(*tensors)\<close>. The model covers a module with two tensors and one of the two
  constructors \<open>Normal\<close> and \<open>AffineTransform\<close>.
\<close>

datatype recipe = Normal_recipe | AffineTransform_recipe

record Unconditional =
  meta :: recipe
  arg_0 :: addr
  arg_1 :: addr
  buffer :: bool

text \<open>
  Modelled from the spec: registering a tensor with the module. A buffer is kept as it
  is; a parameter is a leaf that requires a gradient.
\<close>

definition register :: "bool \<Rightarrow> tensor \<Rightarrow> tensor" where
  "register buf t = (if buf then t else t\<lparr>requires_grad := True, grad_fn := None\<rparr>)"

text \<open>
  Modelled from the spec: the constructor \<open>Unconditional(meta, t0, t1, buffer=buf)\<close>
  and \<open>module.parameters()\<close>.
\<close>

definition Unconditional_init ::
  "recipe \<Rightarrow> tensor \<Rightarrow> tensor \<Rightarrow> bool \<Rightarrow> heap \<Rightarrow> Unconditional \<times> heap" where
  "Unconditional_init r t0 t1 buf h =
     (let (a0, h1) = alloc (Tensor (register buf t0)) h;
          (a1, h2) = alloc (Tensor (register buf t1)) h1
      in (\<lparr>meta = r, arg_0 = a0, arg_1 = a1, buffer = buf\<rparr>, h2))"

definition Unconditional_parameters :: "Unconditional \<Rightarrow> addr list" where
  "Unconditional_parameters u = (if buffer u then [] else [arg_0 u, arg_1 u])"

text \<open>
  Modelled from the spec: the forward call, \<open>forward(c=None)\<close>. The context \<open>c\<close> is not
  used.
\<close>

definition Unconditional_forward ::
  "bool \<Rightarrow> Unconditional \<Rightarrow> addr option \<Rightarrow> heap \<Rightarrow> error + addr \<times> heap" where
  "Unconditional_forward ge u c h =
     (case meta u of
        Normal_recipe \<Rightarrow> Normal_new ge (arg_0 u) (arg_1 u) h
      | AffineTransform_recipe \<Rightarrow> AffineTransform_new (arg_0 u) (arg_1 u) h)"

subsection \<open>The training loop (cell 10)\<close>

text \<open>
  \<^verbatim>\<open>
  for _ in range(8):
      c = torch.randn(8)
      x = torch.normal(torch.sum(c), torch.prod(torch.abs(c)))

      loss = -model(c).log_prob(x)  # -log p(x | c)
      loss.backward()

      optimizer.step()
      optimizer.zero_grad()
  \<close>
  \<open>loss.backward()\<close> fills the gradients that the update rule reads and
  \<open>optimizer.zero_grad()\<close> clears them; neither changes a tensor of the model. The rule
  may differ from one iteration to the next.
\<close>

definition randn_tensor :: "nat \<Rightarrow> generator \<Rightarrow> tensor \<times> generator" where
  "randn_tensor n g =
     (\<lparr>shape = [n], data = map Fin (stake n g), requires_grad = False, grad_fn = None\<rparr>,
      sdrop n g)"

definition training_step ::
  "(addr \<Rightarrow> f32 list \<Rightarrow> f32 list) \<Rightarrow> GaussianModel \<Rightarrow> heap \<times> generator
     \<Rightarrow> error + heap \<times> generator" where
  "training_step rule m s =
     (let (h, g) = s;
          (tc, g1) = randn_tensor 8 g;
          (c, h1) = alloc (Tensor tc) h;
          (z, g2) = randn g1;
          x = \<lparr>shape = [],
               data = [sum_list (data tc) + foldr (*) (map fabs (data tc)) (Fin 1) * Fin z],
               requires_grad = False, grad_fn = None\<rparr>
      in bind_result (GaussianModel_forward True m c h1) (\<lambda>(d, h2).
         bind_result (Normal_log_prob True d x h2) (\<lambda>log_p.
         Inr (optimizer_step rule (parameters m) h2, g2))))"

fun training_loop ::
  "nat \<Rightarrow> (nat \<Rightarrow> addr \<Rightarrow> f32 list \<Rightarrow> f32 list) \<Rightarrow> GaussianModel \<Rightarrow> heap \<times> generator
     \<Rightarrow> error + heap \<times> generator" where
  "training_loop 0 rule m s = Inr s"
| "training_loop (Suc k) rule m s =
     bind_result (training_step (rule k) m s) (training_loop k rule m)"

subsection \<open>Well-formed states\<close>

definition has_shape :: "heap \<Rightarrow> addr \<Rightarrow> nat list \<Rightarrow> bool" where
  "has_shape h a sh =
     (case get_tensor h a of Inr t \<Rightarrow> shape t = sh \<and> tensor_ok t | Inl _ \<Rightarrow> False)"

text \<open>
  The parameters of \<open>GaussianModel(context)\<close> as its constructor shapes them.
\<close>

definition GaussianModel_ok :: "nat \<Rightarrow> GaussianModel \<Rightarrow> heap \<Rightarrow> bool" where
  "GaussianModel_ok context m h =
     (has_shape h (weight (hyper_0 m)) [64, context] \<and> has_shape h (bias (hyper_0 m)) [64]
      \<and> has_shape h (weight (hyper_2 m)) [2, 64] \<and> has_shape h (bias (hyper_2 m)) [2])"

definition params_allocated :: "GaussianModel \<Rightarrow> heap \<Rightarrow> bool" where
  "params_allocated m h = list_all (\<lambda>a. a < length h) (parameters m)"

definition trainable :: "GaussianModel \<Rightarrow> heap \<Rightarrow> bool" where
  "trainable m h =
     list_all (\<lambda>a. case get_tensor h a of Inr t \<Rightarrow> requires_grad t | Inl _ \<Rightarrow> False)
       (parameters m)"

text \<open>
  A context for a model of context size \<open>context\<close>: a tensor whose last dimension has that
  size (a vector, or a batch of vectors).
\<close>

definition is_context :: "nat \<Rightarrow> heap \<Rightarrow> addr \<Rightarrow> bool" where
  "is_context context h c =
     (case get_tensor h c of
        Inr t \<Rightarrow> shape t \<noteq> [] \<and> last (shape t) = context \<and> tensor_ok t
      | Inl _ \<Rightarrow> False)"


subsection \<open>The network as a formula\<close>

text \<open>
  What \<open>Linear(context, 64)\<close>, \<open>ReLU()\<close>, \<open>Linear(64, 2)\<close> compute, written with index
  sums and without the tensor operations above: unit \<open>j\<close> of a linear layer with weight
  matrix \<open>W\<close> (row-major, \<open>n\<close> columns) and bias \<open>b\<close> sends the input \<open>x\<close> to
  \<open>\<Sum>\<^sub>i W\<^sub>j\<^sub>i x\<^sub>i + b\<^sub>j\<close> (the documentation of \<open>torch.nn.Linear\<close>: \<open>y = x A\<^sup>T + b\<close>), and
  output \<open>k\<close> of the network is unit \<open>k\<close> of the second layer on the \<open>relu\<close> of the units
  of the first. Output 0 is \<open>mu\<close> and output 1 is \<open>log sigma\<close>. The forward pass is
  compared with this formula.
\<close>

definition linear_unit :: "f32 list \<Rightarrow> f32 list \<Rightarrow> nat \<Rightarrow> (nat \<Rightarrow> f32) \<Rightarrow> nat \<Rightarrow> f32" where
  "linear_unit W b n x j = (\<Sum>i<n. W ! (j * n + i) * x i) + b ! j"

definition hyper_spec ::
  "nat \<Rightarrow> f32 list \<Rightarrow> f32 list \<Rightarrow> f32 list \<Rightarrow> f32 list \<Rightarrow> (nat \<Rightarrow> f32) \<Rightarrow> nat \<Rightarrow> f32" where
  "hyper_spec n W0 b0 W2 b2 x k =
     linear_unit W2 b2 64 (\<lambda>j. frelu (linear_unit W0 b0 n x j)) k"

text \<open>
  The entries and the shape of the tensor at an address, and the formula on the
  parameters of the model \<open>m\<close> and row \<open>r\<close> of the context \<open>c\<close> as the store \<open>h\<close> holds them.
\<close>

definition data_at :: "heap \<Rightarrow> addr \<Rightarrow> f32 list" where
  "data_at h a = (case get_tensor h a of Inr t \<Rightarrow> data t | Inl e \<Rightarrow> [])"

definition shape_at :: "heap \<Rightarrow> addr \<Rightarrow> nat list" where
  "shape_at h a = (case get_tensor h a of Inr t \<Rightarrow> shape t | Inl e \<Rightarrow> [])"

definition GaussianModel_spec ::
  "nat \<Rightarrow> GaussianModel \<Rightarrow> heap \<Rightarrow> addr \<Rightarrow> nat \<Rightarrow> nat \<Rightarrow> f32" where
  "GaussianModel_spec n m h c r k =
     hyper_spec n (data_at h (weight (hyper_0 m))) (data_at h (bias (hyper_0 m)))
       (data_at h (weight (hyper_2 m))) (data_at h (bias (hyper_2 m)))
       (\<lambda>i. data_at h c ! (r * n + i)) k"

definition context_row :: "tensor \<Rightarrow> nat \<Rightarrow> nat \<Rightarrow> f32" where
  "context_row c r i = data c ! (r * last (shape c) + i)"

subsection \<open>Example states\<close>

text \<open>
  \<open>model = GaussianModel(8)\<close> in a store that holds one context vector of size 8, with
  initial weights chosen here (the biases of the last layer are 1 and 0).
\<close>

definition example_context :: tensor where
  "example_context =
     \<lparr>shape = [8], data = map Fin [1, -1, 2, 0, 1 / 2, 3, -2, 1],
      requires_grad = False, grad_fn = None\<rparr>"

definition example_model :: "GaussianModel \<times> heap" where
  "example_model =
     GaussianModel_init 8 (\<lambda>i. real i / 100) (\<lambda>i. 0) (\<lambda>i. 1 / 64) (\<lambda>i. if i = 0 then 1 else 0)
       [Tensor example_context]"

text \<open>
  An update rule that moves every entry by the same small step.
\<close>

definition example_rule :: "addr \<Rightarrow> f32 list \<Rightarrow> f32 list" where
  "example_rule a d = map (\<lambda>v. v - Fin (1 / 1000)) d"

text \<open>
  \<open>GaussianModel(8)\<close> with every weight of the first layer \<open>1/4\<close>, the weights of the
  second layer \<open>1/16\<close> for \<open>mu\<close> and \<open>-1/16\<close> for \<open>log sigma\<close>, and biases \<open>0\<close>, and the
  context \<open>torch.full([8], 32.0)\<close>. All these numbers, and the outputs \<open>256\<close> and \<open>-256\<close>
  of the network on this context, are powers of two or small multiples of them, which
  \<open>float32\<close> represents and adds exactly.
\<close>

definition underflow_context :: tensor where
  "underflow_context =
     \<lparr>shape = [8], data = replicate 8 (Fin 32), requires_grad = False, grad_fn = None\<rparr>"

definition underflow_model :: "GaussianModel \<times> heap" where
  "underflow_model =
     GaussianModel_init 8 (\<lambda>i. 1 / 4) (\<lambda>i. 0) (\<lambda>i. if i < 64 then 1 / 16 else - (1 / 16))
       (\<lambda>i. 0) [Tensor underflow_context]"


text \<open>
  \<open>Unconditional(Normal, torch.tensor(0.0), torch.tensor(1.0))\<close>, with trainable
  parameters, in an empty store, and the module of cell 12,
  \<open>Unconditional(AffineTransform, torch.tensor(1 / 512), torch.tensor(1 / 256),
  buffer=True)\<close>, in a store that holds two context vectors.
\<close>

definition unconditional_normal :: "Unconditional \<times> heap" where
  "unconditional_normal =
     Unconditional_init Normal_recipe
       \<lparr>shape = [], data = [Fin 0], requires_grad = False, grad_fn = None\<rparr>
       \<lparr>shape = [], data = [Fin 1], requires_grad = False, grad_fn = None\<rparr> False []"






section \<open>Properties of distributions and transformations\<close>

lemma Normal_log_prob_spec:
  assumes "0 < sigma"
  shows "log_prob (Normal mu sigma) x
    = - ((x - mu)\<^sup>2) / (2 * sigma\<^sup>2) - ln (sigma * sqrt (2 * pi))"
proof -
  have "ln (sigma * sqrt (2 * pi)) = ln sigma + ln (sqrt (2 * pi))"
    using assms by (simp add: ln_mult)
  then show ?thesis by simp
qed


lemma AffineTransform_simps:
  "forward (AffineTransform l s) x = l + s * x"
  "inv_call (AffineTransform l s) y = (y - l) / s"
  "log_abs_det_jacobian (AffineTransform l s) x y = ln \<bar>s\<bar>"
  by (simp_all add: AffineTransform_def)

lemma AffineTransform_derivative:
  "(forward (AffineTransform l s) has_real_derivative s) (at x)"
  unfolding AffineTransform_def by (auto intro!: derivative_eq_intros)

lemma AffineTransform_zero_scale: "forward (AffineTransform l 0) x = l"
  by (simp add: AffineTransform_simps)

lemma sample_flow_through:
  "sample (flow_through ts p) g = (inverse_chain ts (fst (sample p g)), snd (sample p g))"
  by (induction ts) (simp_all add: case_prod_unfold Let_def)

lemma affine_flow_is_Normal:
  assumes "0 < sigma" "s \<noteq> 0"
  shows "log_prob (NormalizingFlow (AffineTransform l s) (Normal mu sigma)) x
    = log_prob (Normal ((mu - l) / s) (sigma / \<bar>s\<bar>)) x"
proof -
  have sq: "(x - (mu - l) / s)\<^sup>2 = (l + s * x - mu)\<^sup>2 / s\<^sup>2"
  proof -
    have "x - (mu - l) / s = (l + s * x - mu) / s"
      using assms(2) by (simp add: field_simps)
    then show ?thesis by (simp add: power_divide)
  qed
  have "(sigma / \<bar>s\<bar>)\<^sup>2 = sigma\<^sup>2 / s\<^sup>2" by (simp add: power_divide)
  then have q: "(x - (mu - l) / s)\<^sup>2 / (2 * (sigma / \<bar>s\<bar>)\<^sup>2) = (l + s * x - mu)\<^sup>2 / (2 * sigma\<^sup>2)"
    using assms by (simp add: sq)
  have l: "ln (sigma / \<bar>s\<bar>) = ln sigma - ln \<bar>s\<bar>"
    using assms by (simp add: ln_div)
  show ?thesis
    using q l by (simp add: AffineTransform_simps Let_def)
qed

lemma affine_flow_sample:
  assumes "s \<noteq> 0"
  shows "fst (sample (NormalizingFlow (AffineTransform l s) (Normal mu sigma)) g)
    = (mu - l) / s + (sigma / s) * shd g"
  using assms by (simp add: AffineTransform_simps randn_def Let_def field_simps)

subsection \<open>The outputs that the notebook records\<close>

text \<open>
  Cells 2, 3 and 4 print their results to four decimals:
  \<open>x = 0.2122\<close>, \<open>log_p = -0.9415\<close>; \<open>y = 2.6367\<close>, \<open>x_ = 0.2122\<close>, \<open>ladj = 1.0986\<close>; and
  for the flow \<open>x = -0.6321\<close>, \<open>log_p = 0.1743\<close>. The definitions above give these values
  up to the rounding of the printed digits. The bounds on \<open>exp\<close>, \<open>ln\<close> and \<open>pi\<close> that this
  needs come from the Taylor polynomials of \<open>exp\<close> and \<open>cos\<close> with fourteen terms.
\<close>

lemma exp_lower_sum:
  fixes x :: real
  assumes "0 \<le> x"
  shows "(\<Sum>m<n. x ^ m / fact m) \<le> exp x"
proof -
  have s: "summable (\<lambda>m. x ^ m / fact m)"
    using summable_exp [of x] by (simp add: field_simps)
  have "exp x = (\<Sum>m. x ^ m / fact m)"
    by (simp add: exp_def divide_inverse mult.commute)
  moreover have "(\<Sum>m<n. x ^ m / fact m) \<le> (\<Sum>m. x ^ m / fact m)"
    by (rule sum_le_suminf [OF s]) (use assms in auto)
  ultimately show ?thesis by simp
qed

lemma exp_upper_sum:
  fixes x :: real
  assumes "0 \<le> x" and "x ^ n / fact n < 1"
  shows "exp x \<le> (\<Sum>m<n. x ^ m / fact m) / (1 - x ^ n / fact n)"
proof -
  obtain t where t: "\<bar>t\<bar> \<le> \<bar>x\<bar>"
    and e: "exp x = (\<Sum>m<n. x ^ m / fact m) + (exp t / fact n) * x ^ n"
    using Maclaurin_exp_le [of x n] by blast
  define r where "r = x ^ n / fact n"
  have r0: "0 \<le> r" using assms(1) by (simp add: r_def)
  have "exp t \<le> exp x" using t assms(1) by simp
  then have "exp t * r \<le> exp x * r" using r0 by (rule mult_right_mono)
  moreover have "exp x = (\<Sum>m<n. x ^ m / fact m) + exp t * r"
    using e by (simp add: r_def)
  ultimately have "exp x * (1 - r) \<le> (\<Sum>m<n. x ^ m / fact m)"
    by (simp add: algebra_simps)
  moreover have "0 < 1 - r" using assms(2) by (simp add: r_def)
  ultimately show ?thesis
    unfolding r_def [symmetric] by (simp add: pos_le_divide_eq)
qed

lemma sum14: "(\<Sum>m<(14::nat). f m) = f 0 + f 1 + f 2 + f 3 + f 4 + f 5 + f 6 + f 7 + f 8 + f 9 + f 10
   + f 11 + f 12 + (f 13 :: real)"
  by (simp add: eval_nat_numeral)

lemma exp_10986: "exp (10986 / 10000 :: real) < 3"
proof -
  have "exp (10986 / 10000 :: real)
      \<le> (\<Sum>m<14. (10986 / 10000) ^ m / fact m) / (1 - (10986 / 10000) ^ 14 / fact 14)"
    by (rule exp_upper_sum) (simp_all add: fact_numeral power_divide)
  also have "\<dots> < 3"
    unfolding sum14 by (simp add: fact_numeral power_divide)
  finally show ?thesis .
qed

lemma exp_109862: "3 < exp (109862 / 100000 :: real)"
proof -
  have "3 < (\<Sum>m<14. (109862 / 100000 :: real) ^ m / fact m)"
    unfolding sum14 by (simp add: fact_numeral power_divide)
  also have "\<dots> \<le> exp (109862 / 100000)"
    by (rule exp_lower_sum) simp
  finally show ?thesis .
qed

lemma cos_bounds:
  fixes x :: real
  assumes "0 < x" "0 < n"
  shows "\<bar>cos x - (\<Sum>m<n. cos_coeff m * x ^ m)\<bar> \<le> x ^ n / fact n"
proof -
  obtain t where
    e: "cos x = (\<Sum>m<n. cos_coeff m * x ^ m) + (cos (t + 1/2 * real n * pi) / fact n) * x ^ n"
    using Maclaurin_cos_expansion2 [OF assms] by blast
  have "\<bar>(cos (t + 1/2 * real n * pi) / fact n) * x ^ n\<bar>
      = \<bar>cos (t + 1/2 * real n * pi)\<bar> * (x ^ n / fact n)"
    using assms(1) by (simp add: abs_mult)
  also have "\<dots> \<le> 1 * (x ^ n / fact n)"
    using assms(1) by (intro mult_right_mono) simp_all
  finally show ?thesis using e by simp
qed

lemma cos_poly14:
  "(\<Sum>m<(14::nat). cos_coeff m * x ^ m)
     = 1 - x\<^sup>2 / 2 + x ^ 4 / 24 - x ^ 6 / 720 + x ^ 8 / 40320 - x ^ 10 / 3628800
       + x ^ 12 / 479001600"
  unfolding sum14 by (simp add: cos_coeff_def fact_numeral)

lemma pi_lower: "31414 / 10000 < pi"
proof -
  let ?a = "15707 / 10000 :: real"
  have "\<bar>cos ?a - (\<Sum>m<14. cos_coeff m * ?a ^ m)\<bar> \<le> ?a ^ 14 / fact 14"
    by (rule cos_bounds) simp_all
  moreover have "?a ^ 14 / fact 14 < (\<Sum>m<14. cos_coeff m * ?a ^ m)"
    unfolding cos_poly14 by (simp add: fact_numeral power_divide)
  ultimately have pos: "0 < cos ?a" by linarith
  have "?a < pi / 2"
  proof (rule ccontr)
    assume "\<not> ?a < pi / 2"
    then have "pi / 2 \<le> ?a" by simp
    moreover have "?a \<le> pi" using pi_ge_two by simp
    ultimately have "cos ?a \<le> cos (pi / 2)"
      by (intro cos_monotone_0_pi_le) (use pi_gt_zero in simp_all)
    with pos show False by simp
  qed
  then show ?thesis by simp
qed

lemma pi_upper: "pi < 31418 / 10000"
proof -
  let ?b = "15709 / 10000 :: real"
  have "\<bar>cos ?b - (\<Sum>m<14. cos_coeff m * ?b ^ m)\<bar> \<le> ?b ^ 14 / fact 14"
    by (rule cos_bounds) simp_all
  moreover have "(\<Sum>m<14. cos_coeff m * ?b ^ m) + ?b ^ 14 / fact 14 < 0"
    unfolding cos_poly14 by (simp add: fact_numeral power_divide)
  ultimately have neg: "cos ?b < 0" by linarith
  have "pi / 2 < ?b"
  proof (rule ccontr)
    assume "\<not> pi / 2 < ?b"
    then have "?b \<le> pi / 2" by simp
    then have "0 \<le> cos ?b" by (intro cos_ge_zero) simp_all
    with neg show False by simp
  qed
  then show ?thesis by simp
qed

lemma exp_18378: "exp (18378 / 10000 :: real) < 2 * (31414 / 10000)"
proof -
  have "exp (18378 / 10000 :: real)
      \<le> (\<Sum>m<14. (18378 / 10000) ^ m / fact m) / (1 - (18378 / 10000) ^ 14 / fact 14)"
    by (rule exp_upper_sum) (simp_all add: fact_numeral power_divide)
  also have "\<dots> < 2 * (31414 / 10000)"
    unfolding sum14 by (simp add: fact_numeral power_divide)
  finally show ?thesis .
qed

lemma exp_183795: "2 * (31418 / 10000) < exp (183795 / 100000 :: real)"
proof -
  have "2 * (31418 / 10000) < (\<Sum>m<14. (183795 / 100000 :: real) ^ m / fact m)"
    unfolding sum14 by (simp add: fact_numeral power_divide)
  also have "\<dots> \<le> exp (183795 / 100000)"
    by (rule exp_lower_sum) simp
  finally show ?thesis .
qed

lemma ln_3_bounds: "10986 / 10000 < ln (3::real)" "ln (3::real) < 109862 / 100000"
proof -
  have "exp (10986 / 10000 :: real) < exp (ln 3)" using exp_10986 by simp
  then show "10986 / 10000 < ln (3::real)" by (simp only: exp_less_cancel_iff)
  have "exp (ln (3::real)) < exp (109862 / 100000)" using exp_109862 by simp
  then show "ln (3::real) < 109862 / 100000" by (simp only: exp_less_cancel_iff)
qed

lemma ln_2pi_bounds: "18378 / 10000 < ln (2 * pi)" "ln (2 * pi) < 183795 / 100000"
proof -
  have p: "0 < 2 * pi" by simp
  have "exp (18378 / 10000 :: real) < 2 * pi" using exp_18378 pi_lower by linarith
  then have "exp (18378 / 10000 :: real) < exp (ln (2 * pi))" using p by simp
  then show "18378 / 10000 < ln (2 * pi)" by (simp only: exp_less_cancel_iff)
  have "2 * pi < exp (183795 / 100000 :: real)" using exp_183795 pi_upper by linarith
  then have "exp (ln (2 * pi)) < exp (183795 / 100000 :: real)" using p by simp
  then show "ln (2 * pi) < 183795 / 100000" by (simp only: exp_less_cancel_iff)
qed

lemma ln_sqrt_2pi_bounds:
  "9189 / 10000 < ln (sqrt (2 * pi))" "ln (sqrt (2 * pi)) < 918975 / 1000000"
proof -
  have "ln (sqrt (2 * pi)) = ln (2 * pi) / 2" by (simp add: ln_sqrt)
  then show "9189 / 10000 < ln (sqrt (2 * pi))" "ln (sqrt (2 * pi)) < 918975 / 1000000"
    using ln_2pi_bounds by simp_all
qed

lemma cell_2_output:
  "\<bar>log_prob (Normal 0 1) (2122 / 10000) - (- (9415 / 10000))\<bar> < 1 / 10 ^ 4"
proof -
  have e: "log_prob (Normal 0 1) (2122 / 10000)
      = - ((2122 / 10000)\<^sup>2) / 2 - ln (sqrt (2 * pi))"
    by simp
  show ?thesis
    unfolding e abs_less_iff
    using ln_sqrt_2pi_bounds by (simp add: power2_eq_square)
qed

lemma cell_3_output:
  "\<bar>forward (AffineTransform 2 3) (2122 / 10000) - 26367 / 10000\<bar> \<le> 2 / 10 ^ 4"
  "\<bar>inv_call (AffineTransform 2 3) (26367 / 10000) - 2122 / 10000\<bar> \<le> 1 / 10 ^ 4"
  "\<bar>log_abs_det_jacobian (AffineTransform 2 3) (2122 / 10000) (26367 / 10000)
      - 10986 / 10000\<bar> < 1 / 10 ^ 4"
  using ln_3_bounds by (simp_all add: AffineTransform_simps abs_less_iff abs_le_iff)

lemma cell_4_output:
  "\<bar>log_prob (NormalizingFlow (AffineTransform 2 3) (Normal 0 1)) (- (6321 / 10000))
      - 1743 / 10000\<bar> < 1 / 10 ^ 4"
proof -
  have e: "log_prob (NormalizingFlow (AffineTransform 2 3) (Normal 0 1)) (- (6321 / 10000))
      = - ((1037 / 10000)\<^sup>2) / 2 - ln (sqrt (2 * pi)) + ln 3"
    by (simp add: AffineTransform_simps Let_def)
  show ?thesis
    unfolding e abs_less_iff
    using ln_sqrt_2pi_bounds ln_3_bounds by (simp add: power2_eq_square)
qed

section \<open>Floating-point values and tensor operations\<close>

subsection \<open>Special values\<close>

lemma f32_special_values:
  "fdiv (Fin 1) PInf = Fin 0" "fdiv PInf NInf = NaN" "fdiv (Fin 0) (Fin 0) = NaN"
  "fdiv (Fin (-1)) (Fin 0) = NInf" "fdiv NInf (Fin (-2)) = PInf" "flog NInf = NaN"
  "fabs NInf = PInf" "Fin 0 * PInf = NaN" "PInf + NInf = NaN" "PInf - PInf = NaN"
  "flog (Fin 0) = NInf" "flog (Fin (- 1)) = NaN" "fexp NInf = Fin 0" "frelu NaN = NaN"
  by (simp_all add: minus_f32_def)

lemma sum_Fin: "(\<Sum>i\<in>A. Fin (f i)) = Fin (\<Sum>i\<in>A. f i)"
  by (induction A rule: infinite_finite_induct) (simp_all add: zero_f32_def)






lemma fexp_NaN: "fexp v = NaN \<longleftrightarrow> v = NaN"
  by (cases v) simp_all


lemma fexp_positive:
  "positive (fexp v) \<longleftrightarrow> v = PInf \<or> (\<exists>a. v = Fin a \<and> 1 < exp a * 2 ^ 150)"
  by (cases v) (simp_all add: not_le)

lemma fexp_never_negative: "fexp v \<noteq> NInf" "fexp v = Fin b \<Longrightarrow> 0 \<le> b"
  by (cases v; simp split: if_splits)+

subsection \<open>The tensor operations on small inputs\<close>

lemma small_linear:
  "F_linear True \<lparr>shape = [2], data = [Fin 1, Fin 2], requires_grad = False, grad_fn = None\<rparr>
     \<lparr>shape = [3, 2], data = [Fin 1, Fin 0, Fin 0, Fin 1, Fin 1, Fin 1], requires_grad = True,
      grad_fn = None\<rparr>
     \<lparr>shape = [3], data = [Fin 10, Fin 20, Fin 30], requires_grad = True, grad_fn = None\<rparr>
   = Inr \<lparr>shape = [3], data = [Fin 11, Fin 22, Fin 33], requires_grad = True,
          grad_fn = Some LinearBackward\<rparr>"
  by code_simp

lemma small_unbind:
  "unbind True \<lparr>shape = [2, 2], data = [Fin 1, Fin 2, Fin 3, Fin 4], requires_grad = False,
     grad_fn = None\<rparr>
   = Inr [\<lparr>shape = [2], data = [Fin 1, Fin 3], requires_grad = False, grad_fn = None\<rparr>,
          \<lparr>shape = [2], data = [Fin 2, Fin 4], requires_grad = False, grad_fn = None\<rparr>]"
  by code_simp

lemma small_expand:
  "expand_data \<lparr>shape = [2, 1], data = [Fin 1, Fin 2], requires_grad = False, grad_fn = None\<rparr>
     [2, 3] = [Fin 1, Fin 1, Fin 1, Fin 2, Fin 2, Fin 2]"
  "expand_data \<lparr>shape = [3], data = [Fin 1, Fin 2, Fin 3], requires_grad = False,
     grad_fn = None\<rparr> [2, 3] = [Fin 1, Fin 2, Fin 3, Fin 1, Fin 2, Fin 3]"
  "broadcast_shapes [3, 1] [4] = Some [3, 4]"
  "broadcast_shapes [2, 3] [2] = None"
  by code_simp+

section \<open>The store and the forward pass\<close>

lemma bind_result_Inr:
  "bind_result r f = Inr y \<longleftrightarrow> (\<exists>v. r = Inr v \<and> f v = Inr y)"
  by (cases r) (simp_all add: bind_result_def)

lemma bind_result_simps:
  "bind_result (Inr v) f = f v"
  "bind_result (Inl e) f = Inl e"
  by (simp_all add: bind_result_def)

lemma result_simps [simp]:
  "shape (result ge node inputs sh d) = sh"
  "data (result ge node inputs sh d) = d"
  "requires_grad (result ge node inputs sh d) = (ge \<and> list_ex requires_grad inputs)"
  "grad_fn (result ge node inputs sh d)
     = (if ge \<and> list_ex requires_grad inputs then Some node else None)"
  by (simp_all add: result_def)

lemma get_tensor_Inr:
  "get_tensor h a = Inr t \<longleftrightarrow> a < length h \<and> h ! a = Tensor t"
  by (auto simp: get_tensor_def split: obj.splits)

lemma get_tensor_append:
  "a < length h \<Longrightarrow> get_tensor (h @ xs) a = get_tensor h a"
  by (simp add: get_tensor_def nth_append)

lemma get_tensor_append_new:
  "get_tensor (h @ [Tensor t]) (length h) = Inr t"
  by (simp add: get_tensor_def)

lemma Linear_call_Inr:
  "Linear_call ge l x h = Inr (a, h') \<longleftrightarrow>
     (\<exists>tx tw tb y. get_tensor h x = Inr tx \<and> get_tensor h (weight l) = Inr tw
        \<and> get_tensor h (bias l) = Inr tb \<and> F_linear ge tx tw tb = Inr y
        \<and> a = length h \<and> h' = h @ [Tensor y])"
  by (auto simp: Linear_call_def bind_result_Inr alloc_def)

lemma ReLU_call_Inr:
  "ReLU_call ge x h = Inr (a, h') \<longleftrightarrow>
     (\<exists>tx. get_tensor h x = Inr tx \<and> a = length h \<and> h' = h @ [Tensor (relu ge tx)])"
  by (auto simp: ReLU_call_def bind_result_Inr alloc_def)

lemma exp_call_Inr:
  "exp_call ge x h = Inr (a, h') \<longleftrightarrow>
     (\<exists>tx. get_tensor h x = Inr tx \<and> a = length h \<and> h' = h @ [Tensor (exp_t ge tx)])"
  by (auto simp: exp_call_def bind_result_Inr alloc_def)

lemma alloc_all_eq:
  "alloc_all vs h = ([length h ..< length h + length vs], h @ vs)"
proof (induction vs arbitrary: h)
  case Nil
  then show ?case by simp
next
  case (Cons v vs)
  have "[length h..<length h + Suc (length vs)]
      = length h # [Suc (length h)..<length h + Suc (length vs)]"
    by (rule upt_conv_Cons) simp
  then show ?case using Cons by (simp add: alloc_def)
qed

lemma unbind_call_Inr:
  "unbind_call ge x h = Inr (as, h') \<longleftrightarrow>
     (\<exists>tx ts. get_tensor h x = Inr tx \<and> unbind ge tx = Inr ts
        \<and> as = [length h ..< length h + length ts] \<and> h' = h @ map Tensor ts)"
  by (auto simp: unbind_call_def bind_result_Inr alloc_all_eq)

lemma broadcast_rev_same: "broadcast_rev xs xs = Some xs"
  by (induction xs) simp_all

lemma broadcast_shapes_same: "broadcast_shapes a a = Some a"
  by (simp add: broadcast_shapes_def broadcast_rev_same)

lemma ravel_unravel:
  "i < prod_list ss \<Longrightarrow> ravel_rev ss (unravel_rev ss i) = i"
proof (induction ss arbitrary: i)
  case Nil
  then show ?case by simp
next
  case (Cons s ss)
  from Cons.prems have s: "0 < s"
    by (cases "s = 0") simp_all
  from Cons.prems have "i < prod_list ss * s" by (simp add: mult.commute)
  then have "i div s < prod_list ss"
    using s by (simp add: less_mult_imp_div_less)
  then have "ravel_rev ss (unravel_rev ss (i div s)) = i div s"
    by (rule Cons.IH)
  then show ?case by simp
qed


lemma Normal_new_Inr:
  "Normal_new ge l s h = Inr (d, h') \<longleftrightarrow>
     (\<exists>tloc ts sh. get_tensor h l = Inr tloc \<and> get_tensor h s = Inr ts
        \<and> broadcast_shapes (shape tloc) (shape ts) = Some sh
        \<and> d = length h \<and> h' = h @ [Normal_object l s sh ge])"
  (is "?L \<longleftrightarrow> ?R")
proof
  assume ?L
  then show ?R
    by (auto simp: Normal_new_def bind_result_Inr alloc_def split: option.splits)
next
  assume ?R
  then show ?L
    by (auto simp: Normal_new_def bind_result_simps alloc_def)
qed

lemma params_allocated_iff:
  "params_allocated m h \<longleftrightarrow>
     weight (hyper_0 m) < length h \<and> bias (hyper_0 m) < length h
     \<and> weight (hyper_2 m) < length h \<and> bias (hyper_2 m) < length h"
  by (simp add: params_allocated_def parameters_def)

lemma hyper_call_Inr:
  assumes "params_allocated m h"
  shows "hyper_call ge m c h = Inr (out, h') \<longleftrightarrow>
     (\<exists>tc w0 b0 w2 b2 t1 t3.
        get_tensor h c = Inr tc
        \<and> get_tensor h (weight (hyper_0 m)) = Inr w0 \<and> get_tensor h (bias (hyper_0 m)) = Inr b0
        \<and> get_tensor h (weight (hyper_2 m)) = Inr w2 \<and> get_tensor h (bias (hyper_2 m)) = Inr b2
        \<and> F_linear ge tc w0 b0 = Inr t1 \<and> F_linear ge (relu ge t1) w2 b2 = Inr t3
        \<and> out = length h + 2
        \<and> h' = h @ [Tensor t1, Tensor (relu ge t1), Tensor t3])"
  (is "?L \<longleftrightarrow> ?R")
proof
  assume ?L
  then obtain a1 h1 a2 h2 where
    1: "Linear_call ge (hyper_0 m) c h = Inr (a1, h1)" and
    2: "ReLU_call ge a1 h1 = Inr (a2, h2)" and
    3: "Linear_call ge (hyper_2 m) a2 h2 = Inr (out, h')"
    by (auto simp: hyper_call_def bind_result_Inr)
  from 1 obtain tc w0 b0 t1 where
    c: "get_tensor h c = Inr tc" and w0: "get_tensor h (weight (hyper_0 m)) = Inr w0"
    and b0: "get_tensor h (bias (hyper_0 m)) = Inr b0" and t1: "F_linear ge tc w0 b0 = Inr t1"
    and a1: "a1 = length h" and h1: "h1 = h @ [Tensor t1]"
    by (auto simp: Linear_call_Inr)
  from 2 have a2: "a2 = length h + 1" and h2: "h2 = h @ [Tensor t1, Tensor (relu ge t1)]"
    by (auto simp: ReLU_call_Inr a1 h1 get_tensor_append_new)
  from 3 obtain w2 b2 t3 where
    w2': "get_tensor h2 (weight (hyper_2 m)) = Inr w2"
    and b2': "get_tensor h2 (bias (hyper_2 m)) = Inr b2"
    and t3: "F_linear ge (relu ge t1) w2 b2 = Inr t3"
    and out: "out = length h + 2" and h': "h' = h @ [Tensor t1, Tensor (relu ge t1), Tensor t3]"
    by (auto simp: Linear_call_Inr a2 h2 get_tensor_Inr nth_append)
  have w2: "get_tensor h (weight (hyper_2 m)) = Inr w2"
    and b2: "get_tensor h (bias (hyper_2 m)) = Inr b2"
    using w2' b2' assms by (simp_all add: h2 get_tensor_append params_allocated_iff)
  show ?R using c w0 b0 w2 b2 t1 t3 out h' by blast
next
  assume ?R
  then obtain tc w0 b0 w2 b2 t1 t3 where
    r: "get_tensor h c = Inr tc"
       "get_tensor h (weight (hyper_0 m)) = Inr w0" "get_tensor h (bias (hyper_0 m)) = Inr b0"
       "F_linear ge tc w0 b0 = Inr t1"
    and r2: "get_tensor h (weight (hyper_2 m)) = Inr w2"
       "get_tensor h (bias (hyper_2 m)) = Inr b2"
       "F_linear ge (relu ge t1) w2 b2 = Inr t3"
    and out: "out = length h + 2"
    and h': "h' = h @ [Tensor t1, Tensor (relu ge t1), Tensor t3]"
    by blast
  have 1: "Linear_call ge (hyper_0 m) c h = Inr (length h, h @ [Tensor t1])"
    unfolding Linear_call_Inr using r by blast
  have 2: "ReLU_call ge (length h) (h @ [Tensor t1])
     = Inr (length h + 1, h @ [Tensor t1, Tensor (relu ge t1)])"
    by (simp add: ReLU_call_Inr get_tensor_append_new)
  have "get_tensor (h @ [Tensor t1, Tensor (relu ge t1)]) (length h + 1) = Inr (relu ge t1)"
    by (simp add: get_tensor_Inr nth_append)
  moreover have "get_tensor (h @ [Tensor t1, Tensor (relu ge t1)]) (weight (hyper_2 m)) = Inr w2"
    "get_tensor (h @ [Tensor t1, Tensor (relu ge t1)]) (bias (hyper_2 m)) = Inr b2"
    using r2 assms by (simp_all add: get_tensor_append params_allocated_iff)
  ultimately have 3: "Linear_call ge (hyper_2 m) (length h + 1) (h @ [Tensor t1, Tensor (relu ge t1)])
     = Inr (out, h')"
    unfolding Linear_call_Inr using r2(3) out h' by auto
  show ?L
    using 3 by (simp add: hyper_call_def 1 2 bind_result_simps)
qed

lemma unbind_two:
  assumes "unbind ge t = Inr [mu, ls]"
  shows "shape mu = butlast (shape t) \<and> shape ls = butlast (shape t)
    \<and> last (shape t) = 2 \<and> shape t \<noteq> []"
proof -
  from assms have ne: "shape t \<noteq> []" by (auto simp: unbind_def split: if_splits)
  with assms have eq: "map (\<lambda>i. result ge UnbindBackward [t] (butlast (shape t))
       (map (\<lambda>r. data t ! (r * last (shape t) + i)) [0..<numel (butlast (shape t))]))
       [0..<last (shape t)] = [mu, ls]"
    by (simp add: unbind_def Let_def)
  then have "length [0..<last (shape t)] = 2"
    by (metis length_map length_Cons list.size(3) numeral_2_eq_2)
  then have k: "last (shape t) = 2" by simp
  have "[0..<2] = [0, Suc 0]" by (simp add: upt_rec)
  with eq k show ?thesis using ne by auto
qed

lemma GaussianModel_forward_Inr:
  assumes "params_allocated m h"
  shows "GaussianModel_forward ge m c h = Inr (d, h') \<longleftrightarrow>
     (\<exists>tc w0 b0 w2 b2 t1 t3 mu ls.
        get_tensor h c = Inr tc
        \<and> get_tensor h (weight (hyper_0 m)) = Inr w0 \<and> get_tensor h (bias (hyper_0 m)) = Inr b0
        \<and> get_tensor h (weight (hyper_2 m)) = Inr w2 \<and> get_tensor h (bias (hyper_2 m)) = Inr b2
        \<and> F_linear ge tc w0 b0 = Inr t1 \<and> F_linear ge (relu ge t1) w2 b2 = Inr t3
        \<and> unbind ge t3 = Inr [mu, ls]
        \<and> d = length h + 6
        \<and> h' = h @ [Tensor t1, Tensor (relu ge t1), Tensor t3, Tensor mu, Tensor ls,
                    Tensor (exp_t ge ls),
                    Normal_object (length h + 3) (length h + 5) (butlast (shape t3)) ge])"
  (is "?L \<longleftrightarrow> ?R")
proof
  assume ?L
  then obtain out h1 parts h2 where
    1: "hyper_call ge m c h = Inr (out, h1)" and
    2: "unbind_call ge out h1 = Inr (parts, h2)" and
    3: "(case parts of
           [mu, log_sigma] \<Rightarrow>
             bind_result (exp_call ge log_sigma h2) (\<lambda>(sigma, h3). Normal_new ge mu sigma h3)
         | _ \<Rightarrow> Inl ValueError) = Inr (d, h')"
    by (auto simp: GaussianModel_forward_def bind_result_Inr)
  from 3 obtain amu als where parts: "parts = [amu, als]"
    by (auto split: list.splits)
  from 1 obtain tc w0 b0 w2 b2 t1 t3 where
    r: "get_tensor h c = Inr tc"
       "get_tensor h (weight (hyper_0 m)) = Inr w0" "get_tensor h (bias (hyper_0 m)) = Inr b0"
       "get_tensor h (weight (hyper_2 m)) = Inr w2" "get_tensor h (bias (hyper_2 m)) = Inr b2"
       "F_linear ge tc w0 b0 = Inr t1" "F_linear ge (relu ge t1) w2 b2 = Inr t3"
    and out: "out = length h + 2"
    and h1: "h1 = h @ [Tensor t1, Tensor (relu ge t1), Tensor t3]"
    unfolding hyper_call_Inr [OF assms] by blast
  from 2 obtain ts where ts: "unbind ge t3 = Inr ts"
    and as: "parts = [length h1 ..< length h1 + length ts]" and h2: "h2 = h1 @ map Tensor ts"
    by (auto simp: unbind_call_Inr out h1 get_tensor_Inr nth_append)
  from as parts have "length ts = 2"
    by (metis add_diff_cancel_left' length_Cons length_upt list.size(3) numeral_2_eq_2)
  then obtain mu ls where ts2: "ts = [mu, ls]"
    by (metis (no_types, opaque_lifting) length_0_conv length_Suc_conv numeral_2_eq_2)
  have upt2: "[length h1 ..< length h1 + 2] = [length h1, Suc (length h1)]"
    by (simp add: upt_rec)
  from as parts ts2 upt2 have amu: "amu = length h + 3" and als: "als = length h + 4"
    by (simp_all add: h1)
  have shapes: "shape mu = butlast (shape t3)" "shape (exp_t ge ls) = butlast (shape t3)"
    using unbind_two [OF ts [unfolded ts2]] by (simp_all add: exp_t_def)
  from 3 obtain sigma h3 where
    4: "exp_call ge als h2 = Inr (sigma, h3)" and 5: "Normal_new ge amu sigma h3 = Inr (d, h')"
    by (auto simp: parts bind_result_Inr)
  from 4 have sigma: "sigma = length h + 5" and h3: "h3 = h2 @ [Tensor (exp_t ge ls)]"
    by (auto simp: exp_call_Inr als h2 h1 ts2 get_tensor_Inr nth_append)
  from 5 have d: "d = length h + 6"
    and h': "h' = h3 @ [Normal_object (length h + 3) (length h + 5) (butlast (shape t3)) ge]"
    by (auto simp: Normal_new_Inr amu sigma h3 h2 h1 ts2 get_tensor_Inr nth_append shapes
        broadcast_shapes_same)
  show ?R
    using r ts d h' unfolding ts2 h3 h2 h1 by auto
next
  assume ?R
  then obtain tc w0 b0 w2 b2 t1 t3 mu ls where
    r: "get_tensor h c = Inr tc"
       "get_tensor h (weight (hyper_0 m)) = Inr w0" "get_tensor h (bias (hyper_0 m)) = Inr b0"
       "get_tensor h (weight (hyper_2 m)) = Inr w2" "get_tensor h (bias (hyper_2 m)) = Inr b2"
       "F_linear ge tc w0 b0 = Inr t1" "F_linear ge (relu ge t1) w2 b2 = Inr t3"
    and ub: "unbind ge t3 = Inr [mu, ls]"
    and d: "d = length h + 6"
    and h': "h' = h @ [Tensor t1, Tensor (relu ge t1), Tensor t3, Tensor mu, Tensor ls,
                    Tensor (exp_t ge ls),
                    Normal_object (length h + 3) (length h + 5) (butlast (shape t3)) ge]"
    by blast
  have 1: "hyper_call ge m c h = Inr (length h + 2, h @ [Tensor t1, Tensor (relu ge t1), Tensor t3])"
    unfolding hyper_call_Inr [OF assms] using r by blast
  have upt2: "[Suc (Suc (Suc (length h))) ..< Suc (Suc (Suc (length h))) + 2]
     = [Suc (Suc (Suc (length h))), Suc (Suc (Suc (Suc (length h))))]"
    by (simp add: upt_rec)
  have 2: "unbind_call ge (length h + 2) (h @ [Tensor t1, Tensor (relu ge t1), Tensor t3])
     = Inr ([length h + 3, length h + 4],
            h @ [Tensor t1, Tensor (relu ge t1), Tensor t3, Tensor mu, Tensor ls])"
    using ub upt2 by (simp add: unbind_call_Inr get_tensor_Inr nth_append)
  have shapes: "shape mu = butlast (shape t3)" "shape (exp_t ge ls) = butlast (shape t3)"
    using unbind_two [OF ub] by (simp_all add: exp_t_def)
  have 3: "exp_call ge (length h + 4) (h @ [Tensor t1, Tensor (relu ge t1), Tensor t3, Tensor mu, Tensor ls])
     = Inr (length h + 5,
            h @ [Tensor t1, Tensor (relu ge t1), Tensor t3, Tensor mu, Tensor ls, Tensor (exp_t ge ls)])"
    by (simp add: exp_call_Inr get_tensor_Inr nth_append)
  have 4: "Normal_new ge (length h + 3) (length h + 5)
       (h @ [Tensor t1, Tensor (relu ge t1), Tensor t3, Tensor mu, Tensor ls, Tensor (exp_t ge ls)])
     = Inr (d, h')"
    using shapes
    by (simp add: Normal_new_Inr get_tensor_Inr nth_append d h' broadcast_shapes_same)
  show ?L
    using 1 2 3 4 by (simp add: GaussianModel_forward_def bind_result_simps)
qed
lemma has_shape_iff:
  "has_shape h a sh \<longleftrightarrow> (\<exists>t. get_tensor h a = Inr t \<and> shape t = sh \<and> tensor_ok t)"
  by (auto simp: has_shape_def split: sum.splits)

lemma is_context_iff:
  "is_context n h c \<longleftrightarrow>
     (\<exists>t. get_tensor h c = Inr t \<and> shape t \<noteq> [] \<and> last (shape t) = n \<and> tensor_ok t)"
  by (auto simp: is_context_def split: sum.splits)

lemma GaussianModel_ok_allocated:
  "GaussianModel_ok n m h \<Longrightarrow> params_allocated m h"
  by (auto simp: GaussianModel_ok_def has_shape_iff get_tensor_Inr params_allocated_iff)

lemma F_linear_Inr:
  assumes "shape W = [k, n]" "shape b = [k]" "shape x \<noteq> []" "last (shape x) = n"
  shows "\<exists>y. F_linear ge x W b = Inr y \<and> shape y = butlast (shape x) @ [k]
     \<and> requires_grad y = (ge \<and> (requires_grad x \<or> requires_grad W \<or> requires_grad b))"
  using assms by (simp add: F_linear_def)

lemma unbind_Inr_two:
  assumes "shape t \<noteq> []" "last (shape t) = 2"
  shows "\<exists>mu ls. unbind ge t = Inr [mu, ls]
     \<and> shape mu = butlast (shape t) \<and> shape ls = butlast (shape t)
     \<and> tensor_ok mu \<and> tensor_ok ls
     \<and> requires_grad mu = (ge \<and> requires_grad t) \<and> requires_grad ls = (ge \<and> requires_grad t)"
proof -
  have "[0..<2] = [0, Suc 0]" by (simp add: upt_rec)
  then show ?thesis
    using assms by (simp add: unbind_def Let_def tensor_ok_def)
qed
lemma forward_succeeds:
  assumes ok: "GaussianModel_ok n m h" and c: "is_context n h c"
  shows "\<exists>d h'. GaussianModel_forward ge m c h = Inr (d, h')"
proof -
  from ok obtain w0 b0 w2 b2 where
    g: "get_tensor h (weight (hyper_0 m)) = Inr w0" "get_tensor h (bias (hyper_0 m)) = Inr b0"
       "get_tensor h (weight (hyper_2 m)) = Inr w2" "get_tensor h (bias (hyper_2 m)) = Inr b2"
    and sh: "shape w0 = [64, n]" "shape b0 = [64]" "shape w2 = [2, 64]" "shape b2 = [2]"
    by (auto simp: GaussianModel_ok_def has_shape_iff)
  from c obtain tc where tc: "get_tensor h c = Inr tc" "shape tc \<noteq> []" "last (shape tc) = n"
    by (auto simp: is_context_iff)
  obtain t1 where t1: "F_linear ge tc w0 b0 = Inr t1" "shape t1 = butlast (shape tc) @ [64]"
    using F_linear_Inr [OF sh(1) sh(2) tc(2) tc(3)] by blast
  have r: "shape (relu ge t1) \<noteq> []" "last (shape (relu ge t1)) = 64"
    using t1(2) by (simp_all add: relu_def)
  obtain t3 where t3: "F_linear ge (relu ge t1) w2 b2 = Inr t3"
    "shape t3 = butlast (shape (relu ge t1)) @ [2]"
    using F_linear_Inr [OF sh(3) sh(4) r] by blast
  have t3s: "shape t3 \<noteq> []" "last (shape t3) = 2" using t3(2) by simp_all
  obtain mu ls where u: "unbind ge t3 = Inr [mu, ls]" "shape ls = butlast (shape t3)" "tensor_ok ls"
    using unbind_Inr_two [OF t3s] by blast
  show ?thesis
    unfolding GaussianModel_forward_Inr [OF GaussianModel_ok_allocated [OF ok]]
    using g tc(1) t1(1) t3(1) u(1) by blast
qed

lemma view_same [simp]: "shape t = sh \<Longrightarrow> view ge t sh = t"
  by (simp add: view_def)

lemma read_Normal_Inr:
  "read_Normal h d = Inr (tloc, tsc) \<longleftrightarrow>
     (\<exists>l s sh ge tl ts. d < length h \<and> h ! d = Normal_object l s sh ge
        \<and> get_tensor h l = Inr tl \<and> get_tensor h s = Inr ts
        \<and> tloc = view ge tl sh \<and> tsc = view ge ts sh)"
  by (auto simp: read_Normal_def bind_result_Inr split: obj.splits)

lemma read_Normal_cong:
  assumes "length h' = length h" "d < length h" "h ! d = Normal_object l s sh ge"
    "h' ! d = h ! d" "h' ! l = h ! l" "h' ! s = h ! s"
  shows "read_Normal h' d = read_Normal h d"
  using assms by (simp add: read_Normal_def get_tensor_def)

lemma read_Normal_append:
  assumes "read_Normal h d = Inr v"
  shows "read_Normal (h @ new) d = Inr v"
proof -
  obtain tloc tsc where v: "v = (tloc, tsc)" by (cases v)
  from assms obtain l s sh ge tl ts where
    "d < length h" "h ! d = Normal_object l s sh ge" "get_tensor h l = Inr tl"
    "get_tensor h s = Inr ts" "tloc = view ge tl sh" "tsc = view ge ts sh"
    unfolding v read_Normal_Inr by blast
  then show ?thesis
    unfolding v read_Normal_Inr by (auto simp: get_tensor_Inr nth_append)
qed

lemma update_data_length [simp]: "length (update_data a f h) = length h"
  by (simp add: update_data_def split: obj.splits)

lemma update_data_other: "b \<noteq> a \<Longrightarrow> update_data a f h ! b = h ! b"
  by (simp add: update_data_def split: obj.splits)

lemma optimizer_step_length [simp]: "length (optimizer_step rule ps h) = length h"
  unfolding optimizer_step_def by (induction ps arbitrary: h) simp_all

lemma optimizer_step_other:
  "b \<notin> set ps \<Longrightarrow> optimizer_step rule ps h ! b = h ! b"
  unfolding optimizer_step_def
  by (induction ps arbitrary: h) (simp_all add: update_data_other)

lemma update_data_tensor:
  "get_tensor h a = Inr t \<Longrightarrow> get_tensor (update_data a f h) a = Inr (t\<lparr>data := f (data t)\<rparr>)"
  by (auto simp: get_tensor_Inr update_data_def)

lemma get_tensor_update_other:
  "b \<noteq> a \<Longrightarrow> get_tensor (update_data a f h) b = get_tensor h b"
  by (simp add: get_tensor_def update_data_other)

lemma optimizer_step_Cons:
  "optimizer_step rule (p # ps) h = optimizer_step rule ps (update_data p (rule p) h)"
  by (simp add: optimizer_step_def)

lemma get_tensor_step_other:
  "b \<notin> set ps \<Longrightarrow> get_tensor (optimizer_step rule ps h) b = get_tensor h b"
  by (simp add: get_tensor_def optimizer_step_other)

lemma optimizer_step_param:
  assumes "distinct ps" "a \<in> set ps" "get_tensor h a = Inr t"
  shows "get_tensor (optimizer_step rule ps h) a = Inr (t\<lparr>data := rule a (data t)\<rparr>)"
  using assms
proof (induction ps arbitrary: h)
  case Nil
  then show ?case by simp
next
  case (Cons p ps)
  show ?case
  proof (cases "a = p")
    case True
    then have "a \<notin> set ps" using Cons.prems(1) by simp
    then show ?thesis
      using True Cons.prems(3)
      by (simp add: optimizer_step_Cons get_tensor_step_other update_data_tensor)
  next
    case False
    then have "a \<in> set ps" "distinct ps" using Cons.prems by simp_all
    moreover have "get_tensor (update_data p (rule p) h) a = Inr t"
      using False Cons.prems(3) by (simp add: get_tensor_update_other)
    ultimately show ?thesis using Cons.IH by (simp add: optimizer_step_Cons)
  qed
qed
lemma GaussianModel_init_eq:
  "GaussianModel_init n w0 b0 w2 b2 h =
     (\<lparr>hyper_0 = \<lparr>in_features = n, out_features = 64, weight = length h, bias = length h + 1\<rparr>,
       hyper_2 = \<lparr>in_features = 64, out_features = 2, weight = length h + 2, bias = length h + 3\<rparr>\<rparr>,
      h @ [Tensor \<lparr>shape = [64, n], data = map (\<lambda>i. Fin (w0 i)) [0..<64 * n], requires_grad = True, grad_fn = None\<rparr>,
           Tensor \<lparr>shape = [64], data = map (\<lambda>i. Fin (b0 i)) [0..<64], requires_grad = True, grad_fn = None\<rparr>,
           Tensor \<lparr>shape = [2, 64], data = map (\<lambda>i. Fin (w2 i)) [0..<2 * 64], requires_grad = True, grad_fn = None\<rparr>,
           Tensor \<lparr>shape = [2], data = map (\<lambda>i. Fin (b2 i)) [0..<2], requires_grad = True, grad_fn = None\<rparr>])"
  by (simp add: GaussianModel_init_def Linear_init_def alloc_def)

lemma GaussianModel_init_ok:
  assumes "GaussianModel_init n w0 b0 w2 b2 h = (m, h0)"
  shows "GaussianModel_ok n m h0" "trainable m h0" "distinct (parameters m)"
    "params_allocated m h0"
  using assms unfolding GaussianModel_init_eq
  by (auto simp: GaussianModel_ok_def has_shape_def get_tensor_def nth_append tensor_ok_def
      numel_def trainable_def parameters_def params_allocated_def)

lemma F_linear_InrD:
  assumes "F_linear ge x W b = Inr y"
  shows "\<exists>k. shape W = [k, last (shape x)] \<and> shape b = [k] \<and> shape x \<noteq> []
    \<and> shape y = butlast (shape x) @ [k]
    \<and> requires_grad y = (ge \<and> (requires_grad x \<or> requires_grad W \<or> requires_grad b))"
  using assms by (auto simp: F_linear_def split: list.splits if_splits)

lemma broadcast_shapes_scalar: "broadcast_shapes a [] = Some a"
  by (cases "rev a") (simp_all add: broadcast_shapes_def rev_swap)


lemma forward_read:
  assumes alloc: "params_allocated m h"
    and fwd: "GaussianModel_forward ge m c h = Inr (d, h')"
  shows "\<exists>tc w0 b0 w2 b2 t1 t3 mu ls.
        get_tensor h c = Inr tc
        \<and> get_tensor h (weight (hyper_0 m)) = Inr w0 \<and> get_tensor h (bias (hyper_0 m)) = Inr b0
        \<and> get_tensor h (weight (hyper_2 m)) = Inr w2 \<and> get_tensor h (bias (hyper_2 m)) = Inr b2
        \<and> F_linear ge tc w0 b0 = Inr t1 \<and> F_linear ge (relu ge t1) w2 b2 = Inr t3
        \<and> unbind ge t3 = Inr [mu, ls]
        \<and> d = length h + 6
        \<and> h' = h @ [Tensor t1, Tensor (relu ge t1), Tensor t3, Tensor mu, Tensor ls,
                    Tensor (exp_t ge ls),
                    Normal_object (length h + 3) (length h + 5) (butlast (shape t3)) ge]
        \<and> read_Normal h' d = Inr (mu, exp_t ge ls)
        \<and> shape mu = butlast (shape tc) \<and> shape ls = butlast (shape tc)"
proof -
  from fwd [unfolded GaussianModel_forward_Inr [OF alloc]]
  obtain tc w0 b0 w2 b2 t1 t3 mu ls where
    g: "get_tensor h c = Inr tc"
       "get_tensor h (weight (hyper_0 m)) = Inr w0" "get_tensor h (bias (hyper_0 m)) = Inr b0"
       "get_tensor h (weight (hyper_2 m)) = Inr w2" "get_tensor h (bias (hyper_2 m)) = Inr b2"
    and 1: "F_linear ge tc w0 b0 = Inr t1" "F_linear ge (relu ge t1) w2 b2 = Inr t3"
       "unbind ge t3 = Inr [mu, ls]"
    and d: "d = length h + 6"
    and h': "h' = h @ [Tensor t1, Tensor (relu ge t1), Tensor t3, Tensor mu, Tensor ls,
                    Tensor (exp_t ge ls),
                    Normal_object (length h + 3) (length h + 5) (butlast (shape t3)) ge]"
    by auto
  from F_linear_InrD [OF 1(1)] have s1: "shape t1 = butlast (shape tc) @ [hd (shape b0)]"
    by auto
  from F_linear_InrD [OF 1(2)] have "butlast (shape t3) = butlast (shape (relu ge t1))"
    by auto
  with s1 have s3: "butlast (shape t3) = butlast (shape tc)" by (simp add: relu_def)
  have sh: "shape mu = butlast (shape t3)" "shape ls = butlast (shape t3)"
    using unbind_two [OF 1(3)] by simp_all
  have r: "read_Normal h' d = Inr (mu, exp_t ge ls)"
    unfolding read_Normal_Inr using sh
    by (simp add: d h' get_tensor_Inr nth_append exp_t_def)
  show ?thesis
    using g 1 d h' r sh s3 by (intro exI conjI) (assumption | simp)+
qed





lemma Normal_log_prob_Inr:
  assumes "read_Normal h d = Inr (tloc, tscale)"
  shows "Normal_log_prob ge d x h = Inr r \<longleftrightarrow>
    (\<exists>sh. broadcast_shapes (shape tloc) (shape x) = Some sh
      \<and> r = result ge SubBackward [x, tloc, tscale] sh
               (map (\<lambda>i. Normal_log_prob_entry (expand_data tloc sh ! i)
                            (expand_data tscale sh ! i) (expand_data x sh ! i))
                    [0..<numel sh]))"
  using assms by (auto simp: Normal_log_prob_def bind_result_simps split: option.splits)

lemma expand_simps [simp]:
  "shape (expand ge t sh) = sh"
  "data (expand ge t sh) = expand_data t sh"
  "requires_grad (expand ge t sh) = (ge \<and> requires_grad t)"
  "tensor_ok (expand ge t sh)"
  by (simp_all add: tensor_ok_def expand_def expand_data_def)

lemma example_model_ok:
  "GaussianModel_ok 8 (fst example_model) (snd example_model)"
  "trainable (fst example_model) (snd example_model)"
  "distinct (parameters (fst example_model))"
  "params_allocated (fst example_model) (snd example_model)"
  unfolding example_model_def by (rule GaussianModel_init_ok [OF surjective_pairing])+

lemma example_context_ok: "is_context 8 (snd example_model) 0"
  by (simp add: is_context_def example_model_def GaussianModel_init_eq get_tensor_def
      example_context_def tensor_ok_def numel_def)

lemma GaussianModel_ok_append:
  "GaussianModel_ok n m h \<Longrightarrow> GaussianModel_ok n m (h @ new)"
  by (auto simp: GaussianModel_ok_def has_shape_iff get_tensor_Inr nth_append)

lemma has_shape_step:
  assumes "has_shape h a sh" "distinct ps" "a \<in> set ps"
    and len: "\<And>b d. length (rule b d) = length d"
  shows "has_shape (optimizer_step rule ps h) a sh"
proof -
  from assms(1) obtain t where t: "get_tensor h a = Inr t" "shape t = sh" "tensor_ok t"
    by (auto simp: has_shape_iff)
  show ?thesis
    unfolding has_shape_iff optimizer_step_param [OF assms(2,3) t(1)]
    using t len by (simp add: tensor_ok_def)
qed

lemma GaussianModel_ok_step:
  assumes "GaussianModel_ok n m h" "distinct (parameters m)"
    and len: "\<And>b d. length (rule b d) = length d"
  shows "GaussianModel_ok n m (optimizer_step rule (parameters m) h)"
proof -
  have mem: "weight (hyper_0 m) \<in> set (parameters m)" "bias (hyper_0 m) \<in> set (parameters m)"
    "weight (hyper_2 m) \<in> set (parameters m)" "bias (hyper_2 m) \<in> set (parameters m)"
    by (simp_all add: parameters_def)
  from assms(1) have a: "has_shape h (weight (hyper_0 m)) [64, n]"
    "has_shape h (bias (hyper_0 m)) [64]" "has_shape h (weight (hyper_2 m)) [2, 64]"
    "has_shape h (bias (hyper_2 m)) [2]"
    by (simp_all add: GaussianModel_ok_def)
  show ?thesis
    unfolding GaussianModel_ok_def
    using has_shape_step [OF a(1) assms(2) mem(1) len] has_shape_step [OF a(2) assms(2) mem(2) len]
      has_shape_step [OF a(3) assms(2) mem(3) len] has_shape_step [OF a(4) assms(2) mem(4) len]
    by simp
qed

lemma GaussianModel_ok_tensors:
  assumes "GaussianModel_ok n m h"
  obtains w0 b0 w2 b2 where
    "get_tensor h (weight (hyper_0 m)) = Inr w0" "get_tensor h (bias (hyper_0 m)) = Inr b0"
    "get_tensor h (weight (hyper_2 m)) = Inr w2" "get_tensor h (bias (hyper_2 m)) = Inr b2"
  using assms by (auto simp: GaussianModel_ok_def has_shape_iff)

lemma is_context_append: "is_context n h c \<Longrightarrow> is_context n (h @ new) c"
  by (auto simp: is_context_iff get_tensor_Inr nth_append)

lemma forward_extends:
  assumes "params_allocated m h" "GaussianModel_forward ge m c h = Inr (d, h')"
  shows "\<exists>new. h' = h @ new"
  using assms(2) unfolding GaussianModel_forward_Inr [OF assms(1)] by auto
lemma rows_length:
  assumes "length xs = k * n" "r \<in> set (rows k n xs)"
  shows "length r = n"
proof -
  from assms(2) obtain j where j: "j < k" and r: "r = take n (drop (j * n) xs)"
    by (auto simp: rows_def)
  have "Suc j * n \<le> k * n" using j by (intro mult_le_mono1) simp
  then have "n \<le> length xs - j * n" using assms(1) by simp
  then show ?thesis by (simp add: r)
qed

subsection \<open>Reads stay in range\<close>

text \<open>
  The operations read entries with \<open>!\<close>. On tensors that have as many entries as their
  shape says every such read is in range.
\<close>

lemma length_concat_const:
  assumes "\<And>x. x \<in> set xs \<Longrightarrow> length (f x) = k"
  shows "length (concat (map f xs)) = length xs * k"
  using assms by (induction xs) simp_all

lemma F_linear_ok:
  assumes "F_linear ge x W b = Inr y" "tensor_ok b"
  shows "tensor_ok y"
proof -
  from assms(1) obtain k n where W: "shape W = [k, n]" and b: "shape b = [k]"
    and y: "y = result ge LinearBackward [x, W, b] (butlast (shape x) @ [k])
         (concat (map (\<lambda>xr. map2 (\<lambda>w bi. dot w xr + bi) (rows k n (data W)) (data b))
                      (rows (numel (butlast (shape x))) n (data x))))"
    by (auto simp: F_linear_def split: list.splits if_splits)
  have lb: "length (data b) = k" using assms(2) b by (simp add: tensor_ok_def numel_def)
  have "length (concat (map (\<lambda>xr. map2 (\<lambda>w bi. dot w xr + bi) (rows k n (data W)) (data b))
                      (rows (numel (butlast (shape x))) n (data x))))
      = length (rows (numel (butlast (shape x))) n (data x)) * k"
    by (rule length_concat_const) (simp add: rows_def lb)
  then show ?thesis
    by (simp add: y tensor_ok_def numel_def rows_def)
qed

lemma relu_ok: "tensor_ok t \<Longrightarrow> tensor_ok (relu ge t)"
  by (simp add: tensor_ok_def relu_def)

lemma exp_t_ok: "tensor_ok t \<Longrightarrow> tensor_ok (exp_t ge t)"
  by (simp add: tensor_ok_def exp_t_def)

lemma unbind_ok:
  assumes "unbind ge t = Inr parts" "p \<in> set parts"
  shows "tensor_ok p"
  using assms by (auto simp: unbind_def Let_def tensor_ok_def split: if_splits)

lemma unbind_in_range:
  assumes "tensor_ok t" "shape t \<noteq> []" "r < numel (butlast (shape t))" "i < last (shape t)"
  shows "r * last (shape t) + i < length (data t)"
proof -
  have "shape t = butlast (shape t) @ [last (shape t)]" using assms(2) by simp
  then have "numel (shape t) = numel (butlast (shape t)) * last (shape t)"
    unfolding numel_def by (metis prod_list.append prod_list.Cons prod_list.Nil mult.right_neutral)
  moreover have "r * last (shape t) + i < Suc r * last (shape t)" using assms(4) by simp
  moreover have "Suc r * last (shape t) \<le> numel (butlast (shape t)) * last (shape t)"
    using assms(3) by (intro mult_le_mono1) simp
  ultimately show ?thesis using assms(1) by (simp add: tensor_ok_def)
qed

lemma ravel_in_range_left:
  assumes "broadcast_rev xs ys = Some zs" "i < prod_list zs"
  shows "ravel_rev xs (unravel_rev zs i) < prod_list xs"
  using assms
proof (induction xs ys arbitrary: zs i rule: broadcast_rev.induct)
  case (1 ys)
  then show ?case by simp
next
  case (2 v va)
  then show ?case by (simp add: ravel_unravel del: ravel_rev.simps unravel_rev.simps)
next
  case (3 x xs y ys)
  show ?case
  proof (cases "x = y \<or> y = 1")
    case True
    with "3.prems"(1) obtain zs' where b: "broadcast_rev xs ys = Some zs'" and zs: "zs = x # zs'"
      by auto
    from "3.prems"(2) have x: "0 < x" and d: "i div x < prod_list zs'"
      unfolding zs by (cases "x = 0", simp_all add: less_mult_imp_div_less mult.commute)
    have "ravel_rev xs (unravel_rev zs' (i div x)) < prod_list xs"
      using "3.IH"(1) [OF True b d] .
    then have "Suc (ravel_rev xs (unravel_rev zs' (i div x))) \<le> prod_list xs" by simp
    then have "x * Suc (ravel_rev xs (unravel_rev zs' (i div x))) \<le> x * prod_list xs"
      by (rule mult_le_mono2)
    moreover have "i mod x < x" using x by simp
    ultimately show ?thesis by (simp add: zs)
  next
    case False
    with "3.prems"(1) obtain zs' where b: "broadcast_rev xs ys = Some zs'" and zs: "zs = y # zs'"
      and x1: "x = 1"
      by (auto split: if_splits)
    from "3.prems"(2) have y: "0 < y" and d: "i div y < prod_list zs'"
      unfolding zs by (cases "y = 0", simp_all add: less_mult_imp_div_less mult.commute)
    have "ravel_rev xs (unravel_rev zs' (i div y)) < prod_list xs"
      using "3.IH"(2) [OF False x1 b d] .
    then show ?thesis by (simp add: zs x1)
  qed
qed

lemma expand_data_entries:
  assumes "tensor_ok t" "broadcast_shapes (shape t) other = Some sh"
  shows "set (expand_data t sh) \<subseteq> set (data t)"
proof -
  from assms(2) obtain zs where b: "broadcast_rev (rev (shape t)) (rev other) = Some zs"
    and sh: "sh = rev zs"
    by (auto simp: broadcast_shapes_def)
  have "\<And>i. i < numel sh \<Longrightarrow>
      ravel_rev (rev (shape t)) (unravel_rev (rev sh) i) < length (data t)"
    using ravel_in_range_left [OF b] assms(1) by (simp add: sh numel_def tensor_ok_def)
  then show ?thesis by (auto simp: expand_data_def)
qed

subsection \<open>The forward pass computes the formula\<close>

text \<open>
  Entry \<open>r * m + j\<close> of the output of \<open>F_linear\<close> is unit \<open>j\<close> of the layer on row \<open>r\<close> of the
  input, and so the location and the scale of the object that \<open>forward\<close> returns are
  output 0 of the network and the exponential of output 1.
\<close>

lemma nth_concat_uniform:
  assumes "\<And>xs. xs \<in> set xss \<Longrightarrow> length xs = m" "r < length xss" "j < m"
  shows "concat xss ! (r * m + j) = xss ! r ! j"
  using assms
proof (induction xss arbitrary: r)
  case Nil
  then show ?case by simp
next
  case (Cons xs xss)
  have len: "length xs = m" using Cons.prems(1) by simp
  show ?case
  proof (cases r)
    case 0
    then show ?thesis using len Cons.prems(3) by (simp add: nth_append)
  next
    case (Suc r')
    have "concat xss ! (r' * m + j) = xss ! r' ! j"
      using Cons.prems Suc by (intro Cons.IH) simp_all
    then show ?thesis using len Suc by (simp add: nth_append)
  qed
qed

lemma dot_nth:
  assumes "length u = n" "length v = n"
  shows "dot u v = (\<Sum>i<n. u ! i * v ! i)"
proof -
  have "dot u v = (\<Sum>i = 0..<length (map2 (*) u v). map2 (*) u v ! i)"
    unfolding dot_def by (rule sum_list_sum_nth)
  also have "\<dots> = (\<Sum>i = 0..<n. u ! i * v ! i)"
    using assms by (intro sum.cong) simp_all
  finally show ?thesis by (simp add: atLeast0LessThan)
qed

lemma row_length:
  assumes "length xs = k * n" "r < k"
  shows "length (take n (drop (r * n) xs)) = n"
proof -
  have "Suc r * n \<le> k * n" using assms(2) by (intro mult_le_mono1) simp
  then have le: "r * n + n \<le> length xs" using assms(1) by simp
  then show ?thesis by simp
qed

lemma row_nth:
  assumes "length xs = k * n" "r < k" "i < n"
  shows "take n (drop (r * n) xs) ! i = xs ! (r * n + i)"
  using row_length [OF assms(1,2)] assms(3) by simp

lemma numel_snoc: "numel (sh @ [n]) = numel sh * n"
  by (simp add: numel_def)

lemma F_linear_nth:
  assumes y: "F_linear ge x W b = Inr y" and W: "shape W = [m, n]"
    and ok: "tensor_ok x" "tensor_ok W" "tensor_ok b"
    and r: "r < numel (butlast (shape x))" and j: "j < m"
  shows "data y ! (r * m + j) = linear_unit (data W) (data b) n (\<lambda>i. data x ! (r * n + i)) j"
proof -
  let ?K = "numel (butlast (shape x))"
  from y W have x: "shape x \<noteq> []" "last (shape x) = n" and b: "shape b = [m]"
    and dy: "data y = concat (map (\<lambda>xr. map2 (\<lambda>w bi. dot w xr + bi) (rows m n (data W)) (data b))
                               (rows ?K n (data x)))"
    by (auto simp: F_linear_def split: if_splits)
  have "shape x = butlast (shape x) @ [n]" using x by (metis append_butlast_last_id)
  then have "numel (shape x) = ?K * n" by (metis numel_snoc)
  then have lx: "length (data x) = ?K * n" using ok(1) by (simp add: tensor_ok_def)
  have lW: "length (data W) = m * n" using ok(2) W by (simp add: tensor_ok_def numel_def)
  have lb: "length (data b) = m" using ok(3) b by (simp add: tensor_ok_def numel_def)
  let ?f = "\<lambda>xr. map2 (\<lambda>w bi. dot w xr + bi) (rows m n (data W)) (data b)"
  have len: "\<And>xs. xs \<in> set (map ?f (rows ?K n (data x))) \<Longrightarrow> length xs = m"
    by (auto simp: rows_def lb)
  have "data y ! (r * m + j) = map ?f (rows ?K n (data x)) ! r ! j"
    unfolding dy by (rule nth_concat_uniform [OF len]) (simp_all add: rows_def r j)
  also have "\<dots> = dot (take n (drop (j * n) (data W))) (take n (drop (r * n) (data x)))
      + data b ! j"
    using r j by (simp add: rows_def lb)
  also have "dot (take n (drop (j * n) (data W))) (take n (drop (r * n) (data x)))
      = (\<Sum>i<n. take n (drop (j * n) (data W)) ! i * take n (drop (r * n) (data x)) ! i)"
    by (rule dot_nth [OF row_length [OF lW j] row_length [OF lx r]])
  also have "\<dots> = (\<Sum>i<n. data W ! (j * n + i) * data x ! (r * n + i))"
  proof (rule sum.cong [OF refl])
    fix i assume "i \<in> {..<n}"
    then have i: "i < n" by simp
    show "take n (drop (j * n) (data W)) ! i * take n (drop (r * n) (data x)) ! i
        = data W ! (j * n + i) * data x ! (r * n + i)"
      by (simp only: row_nth [OF lW j i] row_nth [OF lx r i])
  qed
  finally show ?thesis by (simp add: linear_unit_def)
qed

lemma linear_unit_cong:
  assumes "\<And>i. i < n \<Longrightarrow> x i = x' i"
  shows "linear_unit W b n x j = linear_unit W b n x' j"
  unfolding linear_unit_def using assms by simp

lemma index_in_range:
  fixes r :: nat
  assumes "r < k" "i < n"
  shows "r * n + i < k * n"
proof -
  have "r * n + i < Suc r * n" using assms(2) by simp
  also have "\<dots> \<le> k * n" using assms(1) by (intro mult_le_mono1) simp
  finally show ?thesis .
qed

lemma forward_values:
  assumes ok: "GaussianModel_ok n m h" and c: "is_context n h c"
    and fwd: "GaussianModel_forward ge m c h = Inr (d, h')"
    and g: "get_tensor h (weight (hyper_0 m)) = Inr w0" "get_tensor h (bias (hyper_0 m)) = Inr b0"
       "get_tensor h (weight (hyper_2 m)) = Inr w2" "get_tensor h (bias (hyper_2 m)) = Inr b2"
       "get_tensor h c = Inr tc"
  shows "\<exists>tloc tscale. read_Normal h' d = Inr (tloc, tscale)
    \<and> shape tloc = butlast (shape tc) \<and> shape tscale = butlast (shape tc)
    \<and> tensor_ok tloc \<and> tensor_ok tscale
    \<and> (\<forall>r<numel (butlast (shape tc)).
          data tloc ! r
            = hyper_spec n (data w0) (data b0) (data w2) (data b2) (context_row tc r) 0
          \<and> data tscale ! r
            = fexp (hyper_spec n (data w0) (data b0) (data w2) (data b2) (context_row tc r) 1))"
proof -
  let ?K = "numel (butlast (shape tc))"
  from forward_read [OF GaussianModel_ok_allocated [OF ok] fwd] g
  obtain t1 t3 mu ls where
    1: "F_linear ge tc w0 b0 = Inr t1" "F_linear ge (relu ge t1) w2 b2 = Inr t3"
       "unbind ge t3 = Inr [mu, ls]"
    and rd: "read_Normal h' d = Inr (mu, exp_t ge ls)"
    and sh: "shape mu = butlast (shape tc)" "shape ls = butlast (shape tc)"
    by auto
  from ok g have s: "shape w0 = [64, n]" "shape b0 = [64]" "shape w2 = [2, 64]" "shape b2 = [2]"
    and t: "tensor_ok w0" "tensor_ok b0" "tensor_ok w2" "tensor_ok b2"
    by (auto simp: GaussianModel_ok_def has_shape_iff)
  from c g have tc: "shape tc \<noteq> []" "last (shape tc) = n" "tensor_ok tc"
    by (auto simp: is_context_iff)
  have t1: "tensor_ok t1" by (rule F_linear_ok [OF 1(1) t(2)])
  have s1: "shape t1 = butlast (shape tc) @ [64]"
    using F_linear_InrD [OF 1(1)] s by auto
  have l1: "length (data t1) = ?K * 64"
    using t1 s1 by (simp add: tensor_ok_def numel_snoc)
  have r1: "tensor_ok (relu ge t1)" by (rule relu_ok [OF t1])
  have sr: "butlast (shape (relu ge t1)) = butlast (shape tc)"
    using s1 by (simp add: relu_def)
  have t3: "tensor_ok t3" by (rule F_linear_ok [OF 1(2) t(4)])
  have s3: "shape t3 = butlast (shape tc) @ [2]"
    using F_linear_InrD [OF 1(2)] s sr by auto
  have hidden: "data (relu ge t1) ! (r * 64 + j)
      = frelu (linear_unit (data w0) (data b0) n (context_row tc r) j)"
    if "r < ?K" "j < 64" for r j
  proof -
    have "r * 64 + j < length (data t1)"
      unfolding l1 by (rule index_in_range [OF that])
    then have "data (relu ge t1) ! (r * 64 + j) = frelu (data t1 ! (r * 64 + j))"
      by (simp add: relu_def)
    also have "data t1 ! (r * 64 + j)
        = linear_unit (data w0) (data b0) n (\<lambda>i. data tc ! (r * n + i)) j"
      by (rule F_linear_nth [OF 1(1) s(1) tc(3) t(1) t(2) that])
    finally show ?thesis by (simp add: context_row_def [abs_def] tc(2))
  qed
  have out: "data t3 ! (r * 2 + k)
      = hyper_spec n (data w0) (data b0) (data w2) (data b2) (context_row tc r) k"
    if "r < ?K" "k < 2" for r k
  proof -
    have "data t3 ! (r * 2 + k)
        = linear_unit (data w2) (data b2) 64 (\<lambda>j. data (relu ge t1) ! (r * 64 + j)) k"
      using that by (intro F_linear_nth [OF 1(2) s(3) r1 t(3) t(4)]) (simp_all add: sr)
    also have "\<dots> = linear_unit (data w2) (data b2) 64
        (\<lambda>j. frelu (linear_unit (data w0) (data b0) n (context_row tc r) j)) k"
      by (rule linear_unit_cong) (rule hidden [OF that(1)])
    finally show ?thesis by (simp add: hyper_spec_def)
  qed
  have upt2: "[0..<2] = [0, Suc 0]" by (simp add: upt_rec)
  from 1(3) s3 have mu: "data mu = map (\<lambda>r. data t3 ! (r * 2 + 0)) [0..<?K]"
    and ls: "data ls = map (\<lambda>r. data t3 ! (r * 2 + 1)) [0..<?K]"
    by (auto simp: unbind_def Let_def upt2 split: if_splits)
  have ok': "tensor_ok mu" "tensor_ok (exp_t ge ls)"
    using sh mu ls by (simp_all add: tensor_ok_def exp_t_def)
  have vals: "\<forall>r<?K. data mu ! r
            = hyper_spec n (data w0) (data b0) (data w2) (data b2) (context_row tc r) 0
          \<and> data (exp_t ge ls) ! r
            = fexp (hyper_spec n (data w0) (data b0) (data w2) (data b2) (context_row tc r) 1)"
    using out [of _ 0] out [of _ 1] by (simp add: mu ls exp_t_def)
  show ?thesis
    using rd sh ok' vals by (intro exI conjI) (assumption | simp add: exp_t_def)+
qed

subsection \<open>Finite inputs, and the example that underflows\<close>



lemma exp_256_underflows: "exp (- 256 :: real) * 2 ^ 150 \<le> 1"
proof -
  have "(2::real) \<le> exp 1" using exp_ge_add_one_self [of "1::real"] by simp
  then have "(2::real) ^ 256 \<le> exp 1 ^ 256" by (intro power_mono) simp_all
  also have "\<dots> = exp (256 :: real)" by (simp add: exp_of_nat_mult [symmetric])
  finally have "(2::real) ^ 150 \<le> exp 256"
    by (rule order_trans [rotated]) simp
  then have "exp (- 256 :: real) * 2 ^ 150 \<le> exp (- 256) * exp 256"
    by (intro mult_left_mono) simp_all
  also have "\<dots> = 1" by (simp add: exp_add [symmetric])
  finally show ?thesis .
qed

lemma fexp_examples:
  "fexp (Fin (- 256)) = Fin 0" "fexp (Fin 160) = PInf" "fexp (Fin 0) = Fin 1"
proof -
  show "fexp (Fin (- 256)) = Fin 0" using exp_256_underflows by simp
  have "(2::real) \<le> exp 1" using exp_ge_add_one_self [of "1::real"] by simp
  then have "(2::real) ^ 160 \<le> exp 1 ^ 160" by (intro power_mono) simp_all
  also have "\<dots> = exp (160 :: real)" by (simp add: exp_of_nat_mult [symmetric])
  finally have big: "(2::real) ^ 160 \<le> exp 160" .
  have "(2 - 1 / 2 ^ 24) * 2 ^ 127 \<le> (2::real) ^ 160" by simp
  then have 1: "(2 - 1 / 2 ^ 24) * 2 ^ 127 \<le> exp (160::real)" using big by linarith
  have "(1::real) < 2 ^ 160 * 2 ^ 150" by simp
  also have "\<dots> \<le> exp (160::real) * 2 ^ 150" using big by (intro mult_right_mono) simp_all
  finally have 2: "\<not> exp (160::real) * 2 ^ 150 \<le> 1" by simp
  show "fexp (Fin 160) = PInf" using 1 2 by simp
  show "fexp (Fin 0) = Fin 1" by simp
qed

lemma underflow_model_ok:
  "GaussianModel_ok 8 (fst underflow_model) (snd underflow_model)"
  "trainable (fst underflow_model) (snd underflow_model)"
  "distinct (parameters (fst underflow_model))"
  "params_allocated (fst underflow_model) (snd underflow_model)"
  unfolding underflow_model_def by (rule GaussianModel_init_ok [OF surjective_pairing])+

lemma underflow_context_ok: "is_context 8 (snd underflow_model) 0"
  by (simp add: is_context_def underflow_model_def GaussianModel_init_eq get_tensor_def
      underflow_context_def tensor_ok_def numel_def)

lemma underflow_hidden:
  assumes "j < 64"
  shows "linear_unit (map (\<lambda>i. Fin (1 / 4)) [0..<512]) (map (\<lambda>i. Fin 0) [0..<64]) 8
      ((!) (replicate 8 (Fin 32))) j = Fin 64"
proof -
  have "(\<Sum>i<8. map (\<lambda>i. Fin (1 / 4)) [0..<512] ! (j * 8 + i) * replicate 8 (Fin 32) ! i)
      = (\<Sum>i<(8::nat). Fin 8)"
  proof (rule sum.cong [OF refl])
    fix i :: nat assume "i \<in> {..<8}"
    then have i: "i < 8" by simp
    have "j * 8 + i < 64 * 8" by (rule index_in_range [OF assms i])
    then show "map (\<lambda>i. Fin (1 / 4)) [0..<512] ! (j * 8 + i) * replicate 8 (Fin 32) ! i
        = Fin 8"
      using i by simp
  qed
  then show ?thesis using assms by (simp add: linear_unit_def sum_Fin)
qed

lemma underflow_output:
  assumes "k < 2"
  shows "hyper_spec 8 (map (\<lambda>i. Fin (1 / 4)) [0..<512]) (map (\<lambda>i. Fin 0) [0..<64])
     (map (\<lambda>i. Fin (if i < 64 then 1 / 16 else - (1 / 16))) [0..<128])
     (map (\<lambda>i. Fin 0) [0..<2]) ((!) (replicate 8 (Fin 32))) k
   = Fin (if k = 0 then 256 else - 256)"
proof -
  let ?W2 = "map (\<lambda>i. Fin (if i < (64::nat) then 1 / 16 else - (1 / 16))) [0..<128]"
  let ?hid = "\<lambda>j. frelu (linear_unit (map (\<lambda>i. Fin (1 / 4)) [0..<512])
      (map (\<lambda>i. Fin 0) [0..<64]) 8 ((!) (replicate 8 (Fin 32))) j)"
  have "(\<Sum>j<64. ?W2 ! (k * 64 + j) * ?hid j)
      = (\<Sum>j<(64::nat). Fin (if k = 0 then 4 else - 4))"
  proof (rule sum.cong [OF refl])
    fix j :: nat assume "j \<in> {..<64}"
    then have j: "j < 64" by simp
    have "k * 64 + j < 2 * 64" by (rule index_in_range [OF assms j])
    then show "?W2 ! (k * 64 + j) * ?hid j = Fin (if k = 0 then 4 else - 4)"
      using j assms by (simp add: underflow_hidden)
  qed
  then show ?thesis
    using assms by (simp add: hyper_spec_def linear_unit_def sum_Fin)
qed

lemma underflow_forward:
  "\<exists>d h' tloc tscale.
      GaussianModel_forward ge (fst underflow_model) 0 (snd underflow_model) = Inr (d, h')
      \<and> read_Normal h' d = Inr (tloc, tscale)
      \<and> shape tscale = [] \<and> data tloc = [Fin 256] \<and> data tscale = [Fin 0]"
proof -
  let ?m = "fst underflow_model" and ?h = "snd underflow_model"
  obtain d h' where fwd: "GaussianModel_forward ge ?m 0 ?h = Inr (d, h')"
    using forward_succeeds [OF underflow_model_ok(1) underflow_context_ok] by blast
  have g: "get_tensor ?h (weight (hyper_0 ?m))
        = Inr \<lparr>shape = [64, 8], data = map (\<lambda>i. Fin (1 / 4)) [0..<64 * 8],
               requires_grad = True, grad_fn = None\<rparr>"
      "get_tensor ?h (bias (hyper_0 ?m))
        = Inr \<lparr>shape = [64], data = map (\<lambda>i. Fin 0) [0..<64],
               requires_grad = True, grad_fn = None\<rparr>"
      "get_tensor ?h (weight (hyper_2 ?m))
        = Inr \<lparr>shape = [2, 64],
               data = map (\<lambda>i. Fin (if i < 64 then 1 / 16 else - (1 / 16))) [0..<2 * 64],
               requires_grad = True, grad_fn = None\<rparr>"
      "get_tensor ?h (bias (hyper_2 ?m))
        = Inr \<lparr>shape = [2], data = map (\<lambda>i. Fin 0) [0..<2],
               requires_grad = True, grad_fn = None\<rparr>"
      "get_tensor ?h 0 = Inr underflow_context"
    by (simp_all add: underflow_model_def GaussianModel_init_eq get_tensor_def)
  from forward_values [OF underflow_model_ok(1) underflow_context_ok fwd g]
  obtain tloc tscale where r: "read_Normal h' d = Inr (tloc, tscale)"
    and sh: "shape tloc = []" "shape tscale = []" and ok: "tensor_ok tloc" "tensor_ok tscale"
    and v: "data tloc ! 0 = hyper_spec 8 (map (\<lambda>i. Fin (1 / 4)) [0..<64 * 8])
         (map (\<lambda>i. Fin 0) [0..<64])
         (map (\<lambda>i. Fin (if i < 64 then 1 / 16 else - (1 / 16))) [0..<2 * 64])
         (map (\<lambda>i. Fin 0) [0..<2]) (context_row underflow_context 0) 0"
      "data tscale ! 0 = fexp (hyper_spec 8 (map (\<lambda>i. Fin (1 / 4)) [0..<64 * 8])
         (map (\<lambda>i. Fin 0) [0..<64])
         (map (\<lambda>i. Fin (if i < 64 then 1 / 16 else - (1 / 16))) [0..<2 * 64])
         (map (\<lambda>i. Fin 0) [0..<2]) (context_row underflow_context 0) 1)"
    by (auto simp: underflow_context_def numel_def)
  have row: "context_row underflow_context 0 = (\<lambda>i. replicate 8 (Fin 32) ! i)"
    by (simp add: context_row_def [abs_def] underflow_context_def)
  have "data tloc ! 0 = Fin 256" "data tscale ! 0 = Fin 0"
    using v exp_256_underflows by (simp_all add: row underflow_output)
  moreover have "length (data tloc) = 1" "length (data tscale) = 1"
    using ok sh by (simp_all add: tensor_ok_def numel_def)
  ultimately have "data tloc = [Fin 256]" "data tscale = [Fin 0]"
    by (simp_all add: length_Suc_conv, auto)
  then show ?thesis using fwd r sh by blast
qed

subsection \<open>The training loop returns\<close>

lemma training_step_returns:
  assumes ok: "GaussianModel_ok 8 m h" and dist: "distinct (parameters m)"
    and len: "\<And>a d. length (rule a d) = length d"
  shows "\<exists>h' g'. training_step rule m (h, g) = Inr (h', g')
    \<and> GaussianModel_ok 8 m h' \<and> length h < length h'"
proof -
  let ?tc = "\<lparr>shape = [8], data = map Fin (stake 8 g), requires_grad = False, grad_fn = None\<rparr>"
  let ?h1 = "h @ [Tensor ?tc]"
  let ?z = "shd (sdrop 8 g)"
  let ?x = "\<lparr>shape = [],
             data = [sum_list (data ?tc) + foldr (*) (map fabs (data ?tc)) (Fin 1) * Fin ?z],
             requires_grad = False, grad_fn = None\<rparr>"
  have ok1: "GaussianModel_ok 8 m ?h1" by (rule GaussianModel_ok_append [OF ok])
  have c1: "is_context 8 ?h1 (length h)"
    by (simp add: is_context_iff get_tensor_Inr tensor_ok_def numel_def)
  obtain d h2 where fwd: "GaussianModel_forward True m (length h) ?h1 = Inr (d, h2)"
    using forward_succeeds [OF ok1 c1] by blast
  obtain new where h2: "h2 = ?h1 @ new"
    using forward_extends [OF GaussianModel_ok_allocated [OF ok1] fwd] by blast
  obtain tloc tscale where r: "read_Normal h2 d = Inr (tloc, tscale)"
    using forward_read [OF GaussianModel_ok_allocated [OF ok1] fwd] by blast
  obtain log_p where lp: "Normal_log_prob True d ?x h2 = Inr log_p"
    by (simp add: Normal_log_prob_Inr [OF r] broadcast_shapes_scalar)
  have ok2: "GaussianModel_ok 8 m (optimizer_step rule (parameters m) h2)"
    unfolding h2 by (rule GaussianModel_ok_step [OF GaussianModel_ok_append [OF ok1] dist len])
  have "training_step rule m (h, g) = Inr (optimizer_step rule (parameters m) h2, stl (sdrop 8 g))"
    using fwd lp
    by (simp add: training_step_def randn_tensor_def alloc_def randn_def bind_result_simps)
  then show ?thesis using ok2 by (simp add: h2)
qed

lemma training_loop_returns:
  assumes ok: "GaussianModel_ok 8 m h" and dist: "distinct (parameters m)"
    and len: "\<And>k a d. length (rule k a d) = length d"
  shows "\<exists>h' g'. training_loop n rule m (h, g) = Inr (h', g') \<and> GaussianModel_ok 8 m h'"
  using ok
proof (induction n arbitrary: h g)
  case 0
  then show ?case by simp
next
  case (Suc n)
  obtain h1 g1 where s: "training_step (rule n) m (h, g) = Inr (h1, g1)"
    and ok1: "GaussianModel_ok 8 m h1"
    using training_step_returns [OF Suc.prems dist, of "rule n" g] len by blast
  show ?case
    using Suc.IH [OF ok1, of g1] by (simp add: s bind_result_simps)
qed

subsection \<open>Constructors of transforms and of \<open>Unconditional\<close>\<close>




lemma Unconditional_init_eq:
  "Unconditional_init r t0 t1 buf h =
     (\<lparr>meta = r, arg_0 = length h, arg_1 = length h + 1, buffer = buf\<rparr>,
      h @ [Tensor (register buf t0), Tensor (register buf t1)])"
  by (simp add: Unconditional_init_def alloc_def)

lemma register_simps [simp]:
  "shape (register buf t) = shape t" "data (register buf t) = data t"
  "requires_grad (register buf t) = (if buf then requires_grad t else True)"
  by (simp_all add: register_def)




subsection \<open>The forward pass and the store\<close>



lemma forward_spec:
  assumes ok: "GaussianModel_ok n m h" and c: "is_context n h c"
    and fwd: "GaussianModel_forward ge m c h = Inr (d, h')"
  shows "\<exists>tloc tscale. read_Normal h' d = Inr (tloc, tscale)
    \<and> shape tloc = butlast (shape_at h c) \<and> shape tscale = butlast (shape_at h c)
    \<and> tensor_ok tloc \<and> tensor_ok tscale
    \<and> (\<forall>r<numel (butlast (shape_at h c)).
          data tloc ! r = GaussianModel_spec n m h c r 0
          \<and> data tscale ! r = fexp (GaussianModel_spec n m h c r 1))"
proof -
  from ok obtain w0 b0 w2 b2 where
    g: "get_tensor h (weight (hyper_0 m)) = Inr w0" "get_tensor h (bias (hyper_0 m)) = Inr b0"
       "get_tensor h (weight (hyper_2 m)) = Inr w2" "get_tensor h (bias (hyper_2 m)) = Inr b2"
    by (rule GaussianModel_ok_tensors)
  from c obtain tc where tc: "get_tensor h c = Inr tc" "last (shape tc) = n"
    by (auto simp: is_context_iff)
  have row: "context_row tc r = (\<lambda>i. data_at h c ! (r * n + i))" for r
    by (simp add: context_row_def [abs_def] data_at_def tc)
  show ?thesis
    using forward_values [OF ok c fwd g tc(1)]
    by (simp add: GaussianModel_spec_def data_at_def shape_at_def g tc(1) row)
qed



lemma data_at_append: "a < length h \<Longrightarrow> data_at (h @ new) a = data_at h a"
  by (simp add: data_at_def get_tensor_append)

lemma shape_at_append: "a < length h \<Longrightarrow> shape_at (h @ new) a = shape_at h a"
  by (simp add: shape_at_def get_tensor_append)

lemma is_context_allocated: "is_context n h c \<Longrightarrow> c < length h"
  by (auto simp: is_context_iff get_tensor_Inr)

lemma GaussianModel_spec_append:
  assumes "params_allocated m h" "c < length h"
  shows "GaussianModel_spec n m (h @ new) c r k = GaussianModel_spec n m h c r k"
  using assms by (simp add: GaussianModel_spec_def data_at_append params_allocated_iff)

lemma get_tensor_step:
  assumes "distinct ps" "get_tensor h a = Inr t"
  shows "get_tensor (optimizer_step rule ps h) a
     = Inr (if a \<in> set ps then t\<lparr>data := rule a (data t)\<rparr> else t)"
  using assms by (simp add: optimizer_step_param get_tensor_step_other)

lemma data_at_step:
  assumes "distinct ps" "a \<in> set ps" "get_tensor h a = Inr t"
  shows "data_at (optimizer_step rule ps h) a = rule a (data_at h a)"
  using assms by (simp add: data_at_def optimizer_step_param)

lemma shape_at_step:
  assumes "distinct ps"
  shows "shape_at (optimizer_step rule ps h) a = shape_at h a"
proof (cases "get_tensor h a")
  case (Inr t)
  then show ?thesis using get_tensor_step [OF assms Inr] by (simp add: shape_at_def)
next
  case (Inl e)
  then have "a \<notin> set ps \<Longrightarrow> get_tensor (optimizer_step rule ps h) a = Inl e"
    by (simp add: get_tensor_step_other)
  moreover have "get_tensor (optimizer_step rule ps h) a = Inl TypeError" if "a \<in> set ps"
  proof -
    have "update_data p f h' ! a = h' ! a" if "\<nexists>t. a < length h' \<and> h' ! a = Tensor t" for p f h'
      using that by (cases "p = a") (auto simp: update_data_def split: obj.splits)
    have keep: "\<nexists>t. a < length (update_data p f h') \<and> update_data p f h' ! a = Tensor t"
      if "\<nexists>t. a < length h' \<and> h' ! a = Tensor t" for p f h'
      using that by (cases "p = a") (auto simp: update_data_def split: obj.splits)
    have "\<nexists>t. a < length (fold (\<lambda>a. update_data a (rule a)) qs h')
        \<and> fold (\<lambda>a. update_data a (rule a)) qs h' ! a = Tensor t"
      if "\<nexists>t. a < length h' \<and> h' ! a = Tensor t" for qs h'
      using that
    proof (induction qs arbitrary: h')
      case Nil
      then show ?case by simp
    next
      case (Cons q qs)
      show ?case using Cons.IH [OF keep [OF Cons.prems]] by simp
    qed
    moreover have "\<nexists>t. a < length h \<and> h ! a = Tensor t"
      using Inl by (auto simp: get_tensor_def)
    ultimately have "\<nexists>t. a < length (optimizer_step rule ps h)
        \<and> optimizer_step rule ps h ! a = Tensor t"
      unfolding optimizer_step_def by blast
    then show ?thesis by (auto simp: get_tensor_def split: obj.splits)
  qed
  ultimately show ?thesis using Inl by (cases "a \<in> set ps") (auto simp: shape_at_def)
qed

lemma is_context_step_len:
  assumes "is_context n h c" "distinct ps" "\<forall>a xs. length (rule a xs) = length xs"
  shows "is_context n (optimizer_step rule ps h) c"
proof -
  from assms(1) obtain t where t: "get_tensor h c = Inr t" "shape t \<noteq> []" "last (shape t) = n"
    "tensor_ok t"
    by (auto simp: is_context_iff)
  show ?thesis
    unfolding is_context_iff get_tensor_step [OF assms(2) t(1)]
    using t assms(3) by (simp add: tensor_ok_def)
qed

lemma example_rule_len: "\<forall>a xs. length (example_rule a xs) = length xs"
  by (simp add: example_rule_def)



subsection \<open>The log-density of \<open>Normal\<close>\<close>

lemma Normal_log_prob_entry_finite:
  assumes "0 < sigma"
  shows "Normal_log_prob_entry (Fin mu) (Fin sigma) (Fin v)
    = Fin (- ((v - mu)\<^sup>2) / (2 * sigma\<^sup>2) - ln (sigma * sqrt (2 * pi)))"
proof -
  have "ln (sigma * sqrt (2 * pi)) = ln sigma + ln (sqrt (2 * pi))"
    using assms by (simp add: ln_mult)
  then show ?thesis
    using assms by (simp add: Normal_log_prob_entry_def minus_f32_def power2_eq_square)
qed

lemma Normal_log_prob_entry_scalar:
  assumes "0 < sigma"
  shows "Normal_log_prob_entry (Fin mu) (Fin sigma) (Fin v) = Fin (log_prob (Normal mu sigma) v)"
  unfolding Normal_log_prob_entry_finite [OF assms] Normal_log_prob_spec [OF assms]
  by (rule refl)




section \<open>The claims\<close>

text \<open>
  C1: for a flow \<open>NormalizingFlow(transform, distribution)\<close> built from a base \<open>p(Z)\<close>
  and a transformation \<open>f\<close>, and for every point \<open>x\<close> where \<open>f\<close> has a derivative
  \<open>D \<noteq> 0\<close> that its \<open>log_abs_det_jacobian\<close> reports, the log-density of the flow at \<open>x\<close>
  is the base log-density at \<open>f(x)\<close> plus \<open>log |D|\<close>; equivalently
  \<open>p(X = x) = p(Z = f(x)) |D|\<close>. On the 0-dimensional tensors of cell 4 the Jacobian is
  the derivative.
\<close>

theorem NormalizingFlow_change_of_variables:
  assumes "(forward t has_real_derivative D) (at x)"
    and "D \<noteq> 0"
    and "log_abs_det_jacobian t x (forward t x) = ln \<bar>D\<bar>"
  shows "log_prob (NormalizingFlow t p) x = log_prob p (forward t x) + ln \<bar>D\<bar>
    \<and> exp (log_prob (NormalizingFlow t p) x) = exp (log_prob p (forward t x)) * \<bar>D\<bar>"
  using assms by (simp add: exp_add)

theorem NormalizingFlow_change_of_variables_witness:
  "(forward (AffineTransform 2 3) has_real_derivative 3) (at 1) \<and> (3::real) \<noteq> 0
   \<and> log_abs_det_jacobian (AffineTransform 2 3) 1 (forward (AffineTransform 2 3) 1) = ln \<bar>3\<bar>
   \<and> log_prob (NormalizingFlow (AffineTransform 2 3) (Normal 0 1)) 1
      = log_prob (Normal 0 1) 5 + ln 3
   \<and> exp (log_prob (NormalizingFlow (AffineTransform 2 3) (Normal 0 1)) 1)
      = exp (log_prob (Normal 0 1) 5) * 3"
proof -
  have h1: "(forward (AffineTransform 2 3) has_real_derivative 3) (at 1)"
    by (rule AffineTransform_derivative)
  have h2: "(3::real) \<noteq> 0" by simp
  have h3: "log_abs_det_jacobian (AffineTransform 2 3) 1 (forward (AffineTransform 2 3) 1) = ln \<bar>3\<bar>"
    by (simp add: AffineTransform_simps)
  show ?thesis
    using h1 h3 NormalizingFlow_change_of_variables [OF h1 h2 h3, of "Normal 0 1"]
    by (simp add: AffineTransform_simps)
qed




text \<open>
  C3: a normalizing flow is itself a distribution (a value of the type \<open>distribution\<close>,
  with \<open>sample\<close> and \<open>log_prob\<close>), and a sample of it is a realization \<open>z\<close> of the base
  sent through the inverse transformation, \<open>x = f\<^sup>-\<^sup>1(z)\<close>; through several
  transformations, through their inverses in turn. The generator advances as the base
  advances it.
\<close>

theorem NormalizingFlow_sample:
  "sample (NormalizingFlow t p) g = (inv_call t (fst (sample p g)), snd (sample p g))
   \<and> sample (flow_through ts p) g = (inverse_chain ts (fst (sample p g)), snd (sample p g))"
  by (simp add: case_prod_unfold Let_def sample_flow_through)

theorem NormalizingFlow_sample_witness:
  "sample (NormalizingFlow (AffineTransform 2 3) (Normal 0 1)) (sconst 5) = (1, sconst 5)
   \<and> sample (flow_through [AffineTransform 2 3, AffineTransform 1 2] (Normal 0 1)) (sconst 5)
       = (0, sconst 5)"
  using NormalizingFlow_sample [of "AffineTransform 2 3" "Normal 0 1" "sconst 5"
      "[AffineTransform 2 3, AffineTransform 1 2]"]
  by (simp add: AffineTransform_simps randn_def)




text \<open>
  C5: every call of \<open>GaussianModel.forward\<close> (parameters shaped as by the constructor,
  and a context whose last dimension has the declared size) builds a \<open>Normal\<close> object at
  an address that was free before the call, on two tensors that the call has made, and
  leaves every object of the store as it was. Location and scale of the new object are
  the formula of the network on the parameters and the context as the store holds them
  at the time of the call. A second call builds another object, and the first one stays
  as it is.
\<close>

theorem forward_builds_anew:
  assumes ok: "GaussianModel_ok n m h" and c: "is_context n h c"
  shows "\<exists>d h' new tloc tscale.
      GaussianModel_forward ge m c h = Inr (d, h')
      \<and> h' = h @ new \<and> d = length h + 6 \<and> list_all (\<lambda>a. a < length h) (c # parameters m)
      \<and> h' ! d = Normal_object (length h + 3) (length h + 5) (butlast (shape_at h c)) ge
      \<and> read_Normal h' d = Inr (tloc, tscale)
      \<and> shape tloc = butlast (shape_at h c) \<and> shape tscale = butlast (shape_at h c)
      \<and> tensor_ok tloc \<and> tensor_ok tscale
      \<and> (\<forall>r<numel (butlast (shape_at h c)).
            data tloc ! r = GaussianModel_spec n m h c r 0
            \<and> data tscale ! r = fexp (GaussianModel_spec n m h c r 1))
      \<and> (\<exists>d2 h2 tloc2 tscale2.
            GaussianModel_forward ge m c h' = Inr (d2, h2) \<and> d2 = length h' + 6 \<and> d2 \<noteq> d
            \<and> read_Normal h2 d = Inr (tloc, tscale)
            \<and> read_Normal h2 d2 = Inr (tloc2, tscale2)
            \<and> data tloc2 = data tloc \<and> data tscale2 = data tscale)"
proof -
  have alloc: "params_allocated m h" by (rule GaussianModel_ok_allocated [OF ok])
  have cl: "c < length h" by (rule is_context_allocated [OF c])
  obtain d h' where fwd: "GaussianModel_forward ge m c h = Inr (d, h')"
    using forward_succeeds [OF ok c] by blast
  from forward_read [OF alloc fwd]
  obtain tc t1 t3 mu ls where tc: "get_tensor h c = Inr tc"
    and d: "d = length h + 6"
    and h': "h' = h @ [Tensor t1, Tensor (relu ge t1), Tensor t3, Tensor mu, Tensor ls,
                    Tensor (exp_t ge ls),
                    Normal_object (length h + 3) (length h + 5) (butlast (shape t3)) ge]"
    and u: "unbind ge t3 = Inr [mu, ls]" and smu: "shape mu = butlast (shape tc)"
    by blast
  have s3: "butlast (shape t3) = butlast (shape_at h c)"
    using unbind_two [OF u] smu by (simp add: shape_at_def tc)
  from forward_spec [OF ok c fwd]
  obtain tloc tscale where r: "read_Normal h' d = Inr (tloc, tscale)"
    and sh: "shape tloc = butlast (shape_at h c)" "shape tscale = butlast (shape_at h c)"
    and tok: "tensor_ok tloc" "tensor_ok tscale"
    and v: "\<forall>r<numel (butlast (shape_at h c)).
            data tloc ! r = GaussianModel_spec n m h c r 0
            \<and> data tscale ! r = fexp (GaussianModel_spec n m h c r 1)"
    by blast
  obtain new where new: "h' = h @ new" using h' by blast
  have ok': "GaussianModel_ok n m h'" unfolding new by (rule GaussianModel_ok_append [OF ok])
  have c': "is_context n h' c" unfolding new by (rule is_context_append [OF c])
  obtain d2 h2 where fwd2: "GaussianModel_forward ge m c h' = Inr (d2, h2)"
    using forward_succeeds [OF ok' c'] by blast
  from forward_read [OF GaussianModel_ok_allocated [OF ok'] fwd2]
  obtain new2 where d2: "d2 = length h' + 6" and h2: "h2 = h' @ new2"
    by blast
  from forward_spec [OF ok' c' fwd2]
  obtain tloc2 tscale2 where r2: "read_Normal h2 d2 = Inr (tloc2, tscale2)"
    and sh2: "shape tloc2 = butlast (shape_at h' c)" "shape tscale2 = butlast (shape_at h' c)"
    and tok2: "tensor_ok tloc2" "tensor_ok tscale2"
    and v2: "\<forall>r<numel (butlast (shape_at h' c)).
            data tloc2 ! r = GaussianModel_spec n m h' c r 0
            \<and> data tscale2 ! r = fexp (GaussianModel_spec n m h' c r 1)"
    by blast
  have same_shape: "shape_at h' c = shape_at h c"
    unfolding new by (rule shape_at_append [OF cl])
  have same_spec: "GaussianModel_spec n m h' c r k = GaussianModel_spec n m h c r k" for r k
    unfolding new by (rule GaussianModel_spec_append [OF alloc cl])
  have eq: "data tloc2 = data tloc" "data tscale2 = data tscale"
    using v v2 tok tok2 sh sh2
    by (auto simp: same_shape same_spec tensor_ok_def intro!: nth_equalityI)
  have keep: "read_Normal h2 d = Inr (tloc, tscale)"
    unfolding h2 by (rule read_Normal_append [OF r])
  have obj: "h' ! d = Normal_object (length h + 3) (length h + 5) (butlast (shape_at h c)) ge"
    by (simp add: h' d s3 nth_append)
  have al: "list_all (\<lambda>a. a < length h) (c # parameters m)"
    using alloc cl by (simp add: params_allocated_def)
  have "d2 \<noteq> d" by (simp add: d2 d h')
  then show ?thesis
    using fwd new d al obj r sh tok v fwd2 d2 keep r2 eq
    by (intro exI conjI) (assumption | simp)+
qed

theorem forward_builds_anew_witness:
  "GaussianModel_ok 8 (fst example_model) (snd example_model)
   \<and> is_context 8 (snd example_model) 0
   \<and> (\<exists>d h' tloc tscale.
      GaussianModel_forward True (fst example_model) 0 (snd example_model) = Inr (d, h')
      \<and> d = length (snd example_model) + 6
      \<and> read_Normal h' d = Inr (tloc, tscale)
      \<and> data tloc ! 0 = GaussianModel_spec 8 (fst example_model) (snd example_model) 0 0 0
      \<and> data tscale ! 0
          = fexp (GaussianModel_spec 8 (fst example_model) (snd example_model) 0 0 1)
      \<and> (\<exists>d2 h2. GaussianModel_forward True (fst example_model) 0 h' = Inr (d2, h2)
            \<and> d2 \<noteq> d \<and> read_Normal h2 d = Inr (tloc, tscale)))"
proof -
  have "shape_at (snd example_model) 0 = [8]"
    by (simp add: shape_at_def example_model_def GaussianModel_init_eq get_tensor_def
        example_context_def)
  then show ?thesis
    using forward_builds_anew [OF example_model_ok(1) example_context_ok, of True]
      example_model_ok(1) example_context_ok
    by (auto simp: numel_def)
qed




text \<open>
  C7, for \<open>GaussianModel\<close>, whose forward call computes location and scale as new
  tensors. An optimizer step, which overwrites the parameters by any rule that keeps
  their number of entries, leaves the \<open>Normal\<close> object built by an earlier forward call
  and its location and scale as they were, and so does a later forward call. The later
  call returns another object, whose location and scale are the formula of the network
  on the parameters that the step has written.
\<close>

theorem optimizer_step_keeps_distribution:
  assumes ok: "GaussianModel_ok n m h" and dist: "distinct (parameters m)"
    and c: "is_context n h c"
    and fwd: "GaussianModel_forward ge m c h = Inr (d, h1)"
    and len: "\<forall>a xs. length (rule a xs) = length xs"
  shows "optimizer_step rule (parameters m) h1 ! d = h1 ! d
    \<and> read_Normal (optimizer_step rule (parameters m) h1) d = read_Normal h1 d
    \<and> (\<exists>tloc tscale. read_Normal h1 d = Inr (tloc, tscale)
          \<and> (\<forall>r<numel (butlast (shape_at h c)).
                data tloc ! r = GaussianModel_spec n m h c r 0
                \<and> data tscale ! r = fexp (GaussianModel_spec n m h c r 1)))
    \<and> (\<forall>a\<in>set (parameters m).
          data_at (optimizer_step rule (parameters m) h1) a = rule a (data_at h a))
    \<and> (\<exists>d' h3 tloc' tscale'.
          GaussianModel_forward ge m c (optimizer_step rule (parameters m) h1) = Inr (d', h3)
          \<and> d' \<noteq> d
          \<and> read_Normal h3 d = read_Normal h1 d
          \<and> read_Normal h3 d' = Inr (tloc', tscale')
          \<and> (\<forall>r<numel (butlast (shape_at h c)).
                data tloc' ! r
                  = GaussianModel_spec n m (optimizer_step rule (parameters m) h1) c r 0
                \<and> data tscale' ! r
                  = fexp (GaussianModel_spec n m (optimizer_step rule (parameters m) h1) c r 1)))"
proof -
  let ?h2 = "optimizer_step rule (parameters m) h1"
  have alloc: "params_allocated m h" by (rule GaussianModel_ok_allocated [OF ok])
  have cl: "c < length h" by (rule is_context_allocated [OF c])
  from forward_read [OF alloc fwd]
  obtain t1 t3 mu ls where d: "d = length h + 6"
    and h1: "h1 = h @ [Tensor t1, Tensor (relu ge t1), Tensor t3, Tensor mu, Tensor ls,
                    Tensor (exp_t ge ls),
                    Normal_object (length h + 3) (length h + 5) (butlast (shape t3)) ge]"
    by blast
  have n: "h1 ! d = Normal_object (length h + 3) (length h + 5) (butlast (shape t3)) ge"
    and dl: "d < length h1"
    by (simp_all add: d h1 nth_append)
  have out: "\<And>b. length h \<le> b \<Longrightarrow> b \<notin> set (parameters m)"
    using alloc by (auto simp: params_allocated_def list_all_iff)
  have same: "?h2 ! d = h1 ! d" "?h2 ! (length h + 3) = h1 ! (length h + 3)"
    "?h2 ! (length h + 5) = h1 ! (length h + 5)"
    by (simp_all add: optimizer_step_other out d)
  have frame: "read_Normal ?h2 d = read_Normal h1 d"
    by (rule read_Normal_cong [OF _ dl n]) (simp_all add: same)
  from forward_spec [OF ok c fwd]
  obtain tloc tscale where r: "read_Normal h1 d = Inr (tloc, tscale)"
    and v: "\<forall>r<numel (butlast (shape_at h c)).
            data tloc ! r = GaussianModel_spec n m h c r 0
            \<and> data tscale ! r = fexp (GaussianModel_spec n m h c r 1)"
    by blast
  obtain new where new: "h1 = h @ new" using h1 by blast
  have ok1: "GaussianModel_ok n m h1" unfolding new by (rule GaussianModel_ok_append [OF ok])
  have c1: "is_context n h1 c" unfolding new by (rule is_context_append [OF c])
  have upd: "\<forall>a\<in>set (parameters m). data_at ?h2 a = rule a (data_at h a)"
  proof
    fix a assume a: "a \<in> set (parameters m)"
    then have al: "a < length h" using alloc by (auto simp: params_allocated_def list_all_iff)
    from a ok obtain t where t: "get_tensor h a = Inr t"
      by (auto simp: parameters_def elim: GaussianModel_ok_tensors)
    then have "get_tensor h1 a = Inr t" using al by (simp add: new get_tensor_append)
    then have "data_at ?h2 a = rule a (data_at h1 a)"
      by (rule data_at_step [OF dist a])
    then show "data_at ?h2 a = rule a (data_at h a)"
      using al by (simp add: new data_at_append)
  qed
  have ok2: "GaussianModel_ok n m ?h2"
    using GaussianModel_ok_step [OF ok1 dist] len by blast
  have c2: "is_context n ?h2 c" by (rule is_context_step_len [OF c1 dist len])
  obtain d' h3 where fwd': "GaussianModel_forward ge m c ?h2 = Inr (d', h3)"
    using forward_succeeds [OF ok2 c2] by blast
  from forward_read [OF GaussianModel_ok_allocated [OF ok2] fwd']
  obtain new' where d': "d' = length ?h2 + 6" and h3: "h3 = ?h2 @ new'"
    by blast
  have shape: "shape_at ?h2 c = shape_at h c"
    using cl by (simp add: shape_at_step [OF dist] new shape_at_append)
  from forward_spec [OF ok2 c2 fwd']
  obtain tloc' tscale' where r': "read_Normal h3 d' = Inr (tloc', tscale')"
    and v': "\<forall>r<numel (butlast (shape_at h c)).
            data tloc' ! r = GaussianModel_spec n m ?h2 c r 0
            \<and> data tscale' ! r = fexp (GaussianModel_spec n m ?h2 c r 1)"
    unfolding shape by blast
  have keep: "read_Normal h3 d = read_Normal h1 d"
    using read_Normal_append [of ?h2 d "(tloc, tscale)" new'] frame r by (simp add: h3)
  have "d' \<noteq> d" using dl by (simp add: d')
  then show ?thesis
    using same(1) frame r v upd fwd' keep r' v' by blast
qed

theorem optimizer_step_keeps_distribution_witness:
  "GaussianModel_ok 8 (fst example_model) (snd example_model)
   \<and> distinct (parameters (fst example_model))
   \<and> is_context 8 (snd example_model) 0
   \<and> (\<exists>d h1. GaussianModel_forward True (fst example_model) 0 (snd example_model) = Inr (d, h1)
        \<and> read_Normal (optimizer_step example_rule (parameters (fst example_model)) h1) d
            = read_Normal h1 d
        \<and> (\<exists>d' h3. GaussianModel_forward True (fst example_model) 0
                (optimizer_step example_rule (parameters (fst example_model)) h1) = Inr (d', h3)
              \<and> d' \<noteq> d \<and> read_Normal h3 d = read_Normal h1 d))"
proof -
  obtain d h1 where
    fwd: "GaussianModel_forward True (fst example_model) 0 (snd example_model) = Inr (d, h1)"
    using forward_succeeds [OF example_model_ok(1) example_context_ok] by blast
  show ?thesis
    using optimizer_step_keeps_distribution
      [OF example_model_ok(1) example_model_ok(3) example_context_ok fwd example_rule_len]
      fwd example_model_ok(1) example_model_ok(3) example_context_ok
    by blast
qed

text \<open>
  A lazy module that hands its parameter tensors to the constructor behaves otherwise.
  \<open>Unconditional(Normal, torch.tensor(0.0), torch.tensor(1.0))\<close> passes its two
  parameters to \<open>Normal\<close>, which keeps them. After an optimizer step on the parameters
  of the module, the distribution object that an earlier forward call built has the new
  location and scale.
\<close>

theorem Unconditional_Normal_follows_parameters:
  "\<exists>d h1. Unconditional_forward True (fst unconditional_normal) None (snd unconditional_normal)
        = Inr (d, h1)
     \<and> Unconditional_parameters (fst unconditional_normal) = [0, 1]
     \<and> (\<exists>tloc tscale. read_Normal h1 d = Inr (tloc, tscale)
           \<and> data tloc = [Fin 0] \<and> data tscale = [Fin 1])
     \<and> (\<exists>tloc tscale.
           read_Normal (optimizer_step example_rule
               (Unconditional_parameters (fst unconditional_normal)) h1) d = Inr (tloc, tscale)
           \<and> data tloc = [Fin (- (1 / 1000))] \<and> data tscale = [Fin (999 / 1000)])
     \<and> read_Normal (optimizer_step example_rule
               (Unconditional_parameters (fst unconditional_normal)) h1) d
         \<noteq> read_Normal h1 d"
  by (simp add: unconditional_normal_def Unconditional_init_eq Unconditional_forward_def
      Unconditional_parameters_def Normal_new_def bind_result_simps get_tensor_def alloc_def
      broadcast_shapes_same read_Normal_def optimizer_step_def update_data_def example_rule_def
      register_def minus_f32_def)



text \<open>
  C9, as far as it holds in \<open>float32\<close>: for parameters shaped as by the constructor and every context
  whose last dimension has the declared size, \<open>forward\<close> returns a \<open>Normal\<close> object, and
  every entry of its scale is the \<open>float32\<close> exponential of the output \<open>log_sigma\<close> of the
  network. Such an entry is never negative; it is \<open>nan\<close> exactly when \<open>log_sigma\<close> is, and
  it is strictly positive exactly when \<open>log_sigma\<close> is \<open>+inf\<close> or finite with
  \<open>exp(log_sigma) > 2^-150\<close>. It is 0 when \<open>exp(log_sigma)\<close> underflows.
\<close>

theorem forward_scale_is_exp:
  assumes "GaussianModel_ok n m h" and "is_context n h c"
  shows "\<exists>d h' tloc tscale.
      GaussianModel_forward ge m c h = Inr (d, h')
      \<and> read_Normal h' d = Inr (tloc, tscale)
      \<and> shape tscale = butlast (shape_at h c) \<and> tensor_ok tscale
      \<and> (\<forall>r<numel (butlast (shape_at h c)).
           data tscale ! r = fexp (GaussianModel_spec n m h c r 1)
           \<and> data tscale ! r \<noteq> NInf
           \<and> (\<forall>b. data tscale ! r = Fin b \<longrightarrow> 0 \<le> b)
           \<and> (data tscale ! r = NaN \<longleftrightarrow> GaussianModel_spec n m h c r 1 = NaN)
           \<and> (positive (data tscale ! r) \<longleftrightarrow>
                GaussianModel_spec n m h c r 1 = PInf
                \<or> (\<exists>a. GaussianModel_spec n m h c r 1 = Fin a \<and> 1 < exp a * 2 ^ 150)))"
proof -
  obtain d h' where fwd: "GaussianModel_forward ge m c h = Inr (d, h')"
    using forward_succeeds [OF assms] by blast
  from forward_spec [OF assms fwd]
  obtain tloc tscale where r: "read_Normal h' d = Inr (tloc, tscale)"
    and sh: "shape tscale = butlast (shape_at h c)" and ok: "tensor_ok tscale"
    and v: "\<forall>r<numel (butlast (shape_at h c)).
        data tscale ! r = fexp (GaussianModel_spec n m h c r 1)"
    by blast
  have "\<forall>r<numel (butlast (shape_at h c)).
           data tscale ! r = fexp (GaussianModel_spec n m h c r 1)
           \<and> data tscale ! r \<noteq> NInf
           \<and> (\<forall>b. data tscale ! r = Fin b \<longrightarrow> 0 \<le> b)
           \<and> (data tscale ! r = NaN \<longleftrightarrow> GaussianModel_spec n m h c r 1 = NaN)
           \<and> (positive (data tscale ! r) \<longleftrightarrow>
                GaussianModel_spec n m h c r 1 = PInf
                \<or> (\<exists>a. GaussianModel_spec n m h c r 1 = Fin a \<and> 1 < exp a * 2 ^ 150))"
    using v fexp_never_negative fexp_NaN fexp_positive by simp
  then show ?thesis using fwd r sh ok by blast
qed

theorem forward_scale_is_exp_witness:
  "GaussianModel_ok 8 (fst example_model) (snd example_model)
   \<and> is_context 8 (snd example_model) 0
   \<and> (\<exists>d h' tloc tscale.
      GaussianModel_forward True (fst example_model) 0 (snd example_model) = Inr (d, h')
      \<and> read_Normal h' d = Inr (tloc, tscale)
      \<and> shape tscale = [] \<and> tensor_ok tscale
      \<and> data tscale ! 0
          = fexp (GaussianModel_spec 8 (fst example_model) (snd example_model) 0 0 1)
      \<and> data tscale ! 0 \<noteq> NInf)"
proof -
  have "shape_at (snd example_model) 0 = [8]"
    by (simp add: shape_at_def example_model_def GaussianModel_init_eq get_tensor_def
        example_context_def)
  then show ?thesis
    using forward_scale_is_exp [OF example_model_ok(1) example_context_ok, of True]
      example_model_ok(1) example_context_ok
    by (auto simp: numel_def)
qed

text \<open>
  The scale is not always strictly positive. For \<open>GaussianModel(8)\<close> with the weights of
  \<open>underflow_model\<close>, which lie in the range of PyTorch's default initialisation, and
  the context \<open>torch.full([8], 32.0)\<close>, the network returns \<open>log_sigma = -256\<close>,
  \<open>exp(-256)\<close> underflows, and \<open>forward\<close> returns, without an exception, a \<open>Normal\<close>
  object whose scale is 0.
\<close>

theorem forward_scale_underflow:
  "GaussianModel_ok 8 (fst underflow_model) (snd underflow_model)
   \<and> is_context 8 (snd underflow_model) 0
   \<and> (\<exists>d h' tloc tscale.
        GaussianModel_forward True (fst underflow_model) 0 (snd underflow_model) = Inr (d, h')
        \<and> read_Normal h' d = Inr (tloc, tscale)
        \<and> data tloc = [Fin 256] \<and> data tscale = [Fin 0]
        \<and> \<not> list_all positive (data tscale))"
proof -
  obtain d h' tloc tscale where
    "GaussianModel_forward True (fst underflow_model) 0 (snd underflow_model) = Inr (d, h')"
    "read_Normal h' d = Inr (tloc, tscale)" "data tloc = [Fin 256]" "data tscale = [Fin 0]"
    using underflow_forward [of True] by blast
  moreover from this have "\<not> list_all positive (data tscale)" by simp
  ultimately show ?thesis
    using underflow_model_ok(1) underflow_context_ok by blast
qed

end
